theory Spec2Isabelle
  imports Complex_Main "HOL-Library.Char_ord" "HOL-Library.List_Lexorder"
begin

section \<open>Strings\<close>

text \<open>
  Paths, file names and digests are Python \<open>str\<close> values; they are modelled as
  \<open>string\<close>. Only the ASCII letters are folded by \<open>lower\<close>: the program compares
  lowered names with ASCII literals only, and no other character lowers to an ASCII one.
\<close>

definition lower_char :: "char \<Rightarrow> char" where
  "lower_char c =
     (case map_of (zip ''ABCDEFGHIJKLMNOPQRSTUVWXYZ'' ''abcdefghijklmnopqrstuvwxyz'') c of
        None \<Rightarrow> c
      | Some l \<Rightarrow> l)"

definition lower :: "string \<Rightarrow> string" where
  "lower s = map lower_char s"

text \<open>\<open>s.startswith(p)\<close> and \<open>s.endswith(p)\<close>.\<close>

definition startswith :: "string \<Rightarrow> string \<Rightarrow> bool" where
  "startswith s p = (take (length p) s = p)"

definition endswith :: "string \<Rightarrow> string \<Rightarrow> bool" where
  "endswith s p = (length p \<le> length s \<and> drop (length s - length p) s = p)"

text \<open>\<open>s.split(sep)\<close> for a one-character separator: the pieces between the separators.\<close>

fun split_sep :: "char \<Rightarrow> string \<Rightarrow> string list" where
  "split_sep sep [] = [[]]"
| "split_sep sep (c # cs) =
     (if c = sep then [] # split_sep sep cs
      else (case split_sep sep cs of
              [] \<Rightarrow> [[c]]
            | w # ws \<Rightarrow> (c # w) # ws))"

text \<open>\<open>sep.join(parts)\<close>.\<close>

fun join_sep :: "string \<Rightarrow> string list \<Rightarrow> string" where
  "join_sep sep [] = []"
| "join_sep sep [p] = p"
| "join_sep sep (p # q # ps) = p @ sep @ join_sep sep (q # ps)"

section \<open>The path library (POSIX flavour)\<close>

text \<open>
  The program builds every path it reports with \<open>pathlib.Path\<close> and \<open>os.walk\<close>.
  A pure POSIX path is its root (\<open>''''\<close>, \<open>/\<close> or \<open>//\<close>) and its parts; parsing drops
  empty components and \<open>.\<close> components and keeps \<open>..\<close>.
\<close>

type_synonym pure_path = "string \<times> string list"

definition splitroot :: "string \<Rightarrow> string \<times> string" where
  "splitroot part =
     (if part \<noteq> [] \<and> hd part = CHR ''/'' then
        (let stripped = dropWhile (\<lambda>c. c = CHR ''/'') part in
         if length part - length stripped = 2 then (''//'', stripped) else (''/'', stripped))
      else ([], part))"

definition Path :: "string \<Rightarrow> pure_path" where
  "Path s =
     (let (root, rel) = splitroot s in
      (root, filter (\<lambda>x. x \<noteq> [] \<and> x \<noteq> ''.'') (split_sep (CHR ''/'') rel)))"

text \<open>\<open>str(p)\<close>: the empty path prints as \<open>.\<close>.\<close>

definition path_str :: "pure_path \<Rightarrow> string" where
  "path_str p =
     (let s = fst p @ join_sep ''/'' (snd p) in if s = [] then ''.'' else s)"

text \<open>\<open>p / name\<close>: a rooted right operand replaces the left one.\<close>

definition path_div :: "pure_path \<Rightarrow> string \<Rightarrow> pure_path" where
  "path_div p name =
     (let q = Path name in if fst q \<noteq> [] then q else (fst p, snd p @ snd q))"

text \<open>\<open>p.name\<close> and \<open>p.suffix\<close>.\<close>

definition path_name :: "pure_path \<Rightarrow> string" where
  "path_name p = (if snd p = [] then [] else last (snd p))"

text \<open>\<open>name.rfind('.')\<close>, as an option: the index of the last dot.\<close>

fun rfind_dot :: "string \<Rightarrow> nat option" where
  "rfind_dot [] = None"
| "rfind_dot (c # cs) =
     (case rfind_dot cs of
        Some i \<Rightarrow> Some (Suc i)
      | None \<Rightarrow> if c = CHR ''.'' then Some 0 else None)"

definition path_suffix :: "pure_path \<Rightarrow> string" where
  "path_suffix p =
     (let name = path_name p in
      case rfind_dot name of
        None \<Rightarrow> []
      | Some i \<Rightarrow> if 0 < i \<and> i < length name - 1 then drop i name else [])"

text \<open>\<open>os.path.join(a, b)\<close>, which \<open>os.walk\<close> uses to descend.\<close>

definition os_path_join :: "string \<Rightarrow> string \<Rightarrow> string" where
  "os_path_join a b =
     (if startswith b ''/'' then b
      else if a = [] \<or> endswith a ''/'' then a @ b
      else a @ ''/'' @ b)"

section \<open>Quality classifier\<close>

text \<open>
  \<open>compute_quality_rank(ext, bitrate)\<close>: the bitrate is an integer number of kbit/s
  or \<open>None\<close>.
\<close>

definition compute_quality_rank :: "string \<Rightarrow> int option \<Rightarrow> int" where
  "compute_quality_rank ext bitrate =
     (if ext \<in> set [''.wav'', ''.aif'', ''.aiff''] then 1
      else if ext = ''.flac'' then 2
      else (case bitrate of
              None \<Rightarrow> 9999
            | Some b \<Rightarrow>
                if b \<ge> 320 then 3
                else if b \<ge> 256 then 4
                else if b \<ge> 192 then 5
                else 6))"


section \<open>Metadata extractor\<close>

text \<open>
  What \<open>MutagenFile(path, easy=False)\<close> does is outside the program: it raises, returns
  \<open>None\<close>, or returns an object whose \<open>info\<close> may carry a \<open>bitrate\<close> (bits per second) and
  a \<open>length\<close> (seconds). The bitrate is an integer and the length a rational;
  \<open>getattr(..., None)\<close> turns a missing attribute into \<open>None\<close>.
\<close>

datatype mutagen_result =
    MutagenRaises
  | MutagenNone
  | MutagenInfo "int option" "rat option"

text \<open>\<open>round(x)\<close>: to the nearest integer, a tie to the even one.\<close>

definition py_round :: "rat \<Rightarrow> int" where
  "py_round x =
     (let f = \<lfloor>x\<rfloor>; r = x - of_int f in
      if r < 1 / 2 then f
      else if 1 / 2 < r then f + 1
      else if even f then f else f + 1)"

text \<open>\<open>round(x, 2)\<close>, on the exact value.\<close>

definition py_round2 :: "rat \<Rightarrow> rat" where
  "py_round2 x = of_int (py_round (x * 100)) / 100"

text \<open>
  \<open>a / b\<close> on two integers is a float: the double nearest to the exact quotient, a tie
  going to the even significand, and an \<open>OverflowError\<close> when that double would not be
  finite. The double is kept as the rational it stands for. A double has 53 significant
  bits, so the quotient is rounded to a multiple of \<open>2 ^ e\<close>, where \<open>e\<close> is 52 below the
  binary exponent of the quotient and never below -1074.
\<close>

function bit_length :: "nat \<Rightarrow> nat" where
  "bit_length n = (if n = 0 then 0 else Suc (bit_length (n div 2)))"
  by pat_completeness auto
termination
  by (relation "measure (\<lambda>n. n)") auto

text \<open>The binary exponent \<open>p\<close> of a quotient: \<open>2 ^ p \<le> |a / b| < 2 ^ (p + 1)\<close>.\<close>

definition binary_exponent :: "int \<Rightarrow> int \<Rightarrow> int" where
  "binary_exponent a b =
     (let k = int (bit_length (nat \<bar>a\<bar>)) - int (bit_length (nat \<bar>b\<bar>)) in
      if 2 powi k \<le> \<bar>of_int a / of_int b :: rat\<bar> then k else k - 1)"

datatype py_error = ZeroDivisionError | OverflowError

definition py_truediv :: "int \<Rightarrow> int \<Rightarrow> py_error + rat" where
  "py_truediv a b =
     (if b = 0 then Inl ZeroDivisionError
      else if a = 0 then Inr 0
      else
        (let x = \<bar>of_int a / of_int b\<bar>;
             e = max (binary_exponent a b - 52) (- 1074);
             y = of_int (py_round (x / 2 powi e)) * 2 powi e
         in if 2 powi 1024 \<le> y then Inl OverflowError
            else Inr (if (a < 0) = (b < 0) then y else - y)))"

section \<open>The world a run reads\<close>

text \<open>
  A directory tree as \<open>os.walk\<close> and \<open>Path.is_file\<close>/\<open>Path.stat\<close> see it. A file entry
  carries the outcome of the check \<open>p.is_file() and p.stat().st_size > 0\<close>: a regular
  file with its size, something that is not a regular file, or an \<open>OSError\<close> with its
  message. A directory that cannot be listed, or a link to a directory, is a directory
  entry without children.
\<close>

datatype fstatus = Regular nat | NotRegular | AccessError string

datatype fs_entry = FileEntry string fstatus | DirEntry string "fs_entry list"

datatype io_error = FileNotFoundError | PermissionError | OSError

text \<open>
  \<open>fs_root\<close> answers \<open>Path(p).exists()\<close> and lists the tree below; \<open>file_bytes\<close> is the
  outcome of opening and reading a file; \<open>sha1_hexdigest\<close> is the digest of a byte
  sequence; \<open>datetime_now k\<close> is the value of the k-th clock reading.
\<close>

record env =
  fs_root :: "string \<Rightarrow> fs_entry option"
  file_bytes :: "string \<Rightarrow> io_error + string"
  sha1_hexdigest :: "string \<Rightarrow> string"
  MutagenFile :: "string \<Rightarrow> mutagen_result"
  datetime_now :: "nat \<Rightarrow> int"

definition AUDIO_EXT :: "string list" where
  "AUDIO_EXT = [''.wav'', ''.aif'', ''.aiff'', ''.flac'', ''.m4a'', ''.aac'', ''.mp3'']"

text \<open>
  \<open>round(bitrate / 1000)\<close> divides in floating point first; an error of the division is
  caught by the \<open>except\<close> clause like any other.
\<close>

definition get_bitrate_and_duration :: "env \<Rightarrow> string \<Rightarrow> int option \<times> rat option" where
  "get_bitrate_and_duration env path =
     (case MutagenFile env path of
        MutagenRaises \<Rightarrow> (None, None)
      | MutagenNone \<Rightarrow> (None, None)
      | MutagenInfo bitrate duration \<Rightarrow>
          (case bitrate of
             None \<Rightarrow> (None, duration)
           | Some b \<Rightarrow>
               (case py_truediv b 1000 of
                  Inl err \<Rightarrow> (None, None)
                | Inr q \<Rightarrow> (Some (py_round q), duration))))"

section \<open>Directory scanner\<close>

text \<open>
  \<open>scan_folder\<close> appends to the two lists it is given; the model threads them as a pair
  (report, errors). Console output is left out, and so is an \<open>OSError\<close> raised by
  \<open>root.exists()\<close> itself, which the program does not catch.
\<close>

type_synonym scan_state = "string list \<times> string list"

definition scan_file :: "string \<Rightarrow> string \<Rightarrow> fstatus \<Rightarrow> scan_state \<Rightarrow> scan_state" where
  "scan_file dirpath fname status st =
     (if startswith fname ''._'' then st
      else
        (let p = path_div (Path dirpath) fname in
         if lower (path_suffix p) \<notin> set AUDIO_EXT then st
         else
           (case status of
              Regular sz \<Rightarrow> if sz > 0 then (fst st @ [path_str p], snd st) else st
            | NotRegular \<Rightarrow> st
            | AccessError msg \<Rightarrow>
                (fst st, snd st @ [''Cannot access: '' @ path_str p @ '' - '' @ msg]))))"

fun scan_files :: "string \<Rightarrow> fs_entry list \<Rightarrow> scan_state \<Rightarrow> scan_state" where
  "scan_files dirpath [] st = st"
| "scan_files dirpath (FileEntry fname status # es) st =
     scan_files dirpath es (scan_file dirpath fname status st)"
| "scan_files dirpath (DirEntry d sub # es) st = scan_files dirpath es st"

definition pruned :: "string \<Rightarrow> bool" where
  "pruned d = (endswith (lower d) ''.localized'' \<or> startswith d ''.'')"

fun walk_dir :: "string \<Rightarrow> fs_entry list \<Rightarrow> scan_state \<Rightarrow> scan_state"
  and walk_subdirs :: "string \<Rightarrow> fs_entry list \<Rightarrow> scan_state \<Rightarrow> scan_state" where
  "walk_dir dirpath entries st = walk_subdirs dirpath entries (scan_files dirpath entries st)"
| "walk_subdirs dirpath [] st = st"
| "walk_subdirs dirpath (FileEntry fname status # es) st = walk_subdirs dirpath es st"
| "walk_subdirs dirpath (DirEntry d sub # es) st =
     walk_subdirs dirpath es
       (if pruned d then st else walk_dir (os_path_join dirpath d) sub st)"

definition scan_folder :: "env \<Rightarrow> string \<Rightarrow> scan_state \<Rightarrow> scan_state" where
  "scan_folder env root_path st =
     (let root = Path root_path in
      case fs_root env (path_str root) of
        None \<Rightarrow> (fst st, snd st @ [''Path not found: '' @ root_path])
      | Some (FileEntry fname status) \<Rightarrow> st
      | Some (DirEntry d entries) \<Rightarrow> walk_dir (path_str root) entries st)"

section \<open>Content hasher\<close>

text \<open>
  The read loop of \<open>hash_file\<close>: \<open>f.read(block_size)\<close> hands out the next chunk, an empty
  chunk ends the loop, \<open>h.update\<close> extends the bytes digested so far.
\<close>

function read_loop :: "nat \<Rightarrow> string \<Rightarrow> string \<Rightarrow> string" where
  "read_loop block_size rest h =
     (let data = take block_size rest in
      if data = [] then h else read_loop block_size (drop block_size rest) (h @ data))"
  by pat_completeness auto
termination
  by (relation "measure (\<lambda>(block_size, rest, h). length rest)") auto

definition hash_file :: "env \<Rightarrow> string \<Rightarrow> string option" where
  "hash_file env path =
     (case file_bytes env path of
        Inl e \<Rightarrow> None
      | Inr content \<Rightarrow> Some (sha1_hexdigest env (read_loop 65536 content [])))"

section \<open>The run\<close>

text \<open>One record of the detailed report (the dictionary \<open>entry\<close> of \<open>main\<close>).\<close>

record entry =
  source_path :: string
  filename :: string
  format :: string
  bitrate_kbps :: "int option"
  duration_sec :: "rat option"
  hash :: string
  in_master :: bool
  quality_rank :: int
  recommended_action :: string

text \<open>
  The order in which a run touches the master index is made observable by a log that
  the model keeps beside the program's variables: a file hashed by the index loop, an
  insertion \<open>master_hashes[h] = f\<close>, and a membership test \<open>h in master_hashes\<close> with its
  outcome.
\<close>

datatype event =
    MasterHashed string "string option"
  | MasterInsert string string
  | MemberTest string string bool

text \<open>The variables of \<open>main\<close> that the two loops update.\<close>

record locals =
  detailed :: "entry list"
  summary :: "(string \<times> nat) list"
  master_hashes :: "string \<rightharpoonup> string"
  master_count :: nat
  hash_errors :: "string list"
  processed :: nat
  events :: "event list"

definition init_locals :: locals where
  "init_locals =
     \<lparr>detailed = [], summary = [], master_hashes = Map.empty, master_count = 0,
      hash_errors = [], processed = 0, events = []\<rparr>"

text \<open>\<open>summary.setdefault(ext, 0); summary[ext] += 1\<close> on an insertion-ordered dictionary.\<close>

fun dict_incr :: "(string \<times> nat) list \<Rightarrow> string \<Rightarrow> (string \<times> nat) list" where
  "dict_incr [] k = [(k, 1)]"
| "dict_incr ((k', v) # kvs) k =
     (if k' = k then (k', v + 1) # kvs else (k', v) # dict_incr kvs k)"

text \<open>
  The body of the first loop. \<open>if h:\<close> is Python truthiness: neither \<open>None\<close> nor the
  empty string.
\<close>

definition index_step :: "env \<Rightarrow> string \<Rightarrow> string \<Rightarrow> locals \<Rightarrow> locals" where
  "index_step env master f s =
     (if startswith f master then
        (let h = hash_file env f;
             s1 = s\<lparr>events := events s @ [MasterHashed f h]\<rparr>
         in case h of
              None \<Rightarrow> s1
            | Some d \<Rightarrow>
                if d = [] then s1
                else s1\<lparr>master_hashes := (master_hashes s1)(d \<mapsto> f),
                        master_count := master_count s1 + 1,
                        events := events s1 @ [MasterInsert d f]\<rparr>)
      else s)"

fun index_master :: "env \<Rightarrow> string \<Rightarrow> string list \<Rightarrow> locals \<Rightarrow> locals" where
  "index_master env master [] s = s"
| "index_master env master (f # fs) s = index_master env master fs (index_step env master f s)"

text \<open>
  The body of the second loop. \<open>round(duration, 2) if duration else None\<close> tests the
  truthiness of the duration: \<open>None\<close> and zero both give \<open>None\<close>.
\<close>

definition analyze_step :: "env \<Rightarrow> string \<Rightarrow> locals \<Rightarrow> locals" where
  "analyze_step env f s =
     (case hash_file env f of
        None \<Rightarrow> s\<lparr>hash_errors := hash_errors s @ [f]\<rparr>
      | Some h \<Rightarrow>
          (let (bitrate, duration) = get_bitrate_and_duration env f;
               in_m = (master_hashes s h \<noteq> None);
               ext = lower (path_suffix (Path f));
               qrank = compute_quality_rank ext bitrate;
               e = \<lparr>source_path = f,
                    filename = path_name (Path f),
                    format = ext,
                    bitrate_kbps = bitrate,
                    duration_sec =
                      (case duration of
                         None \<Rightarrow> None
                       | Some d \<Rightarrow> if d \<noteq> 0 then Some (py_round2 d) else None),
                    hash = h,
                    in_master = in_m,
                    quality_rank = qrank,
                    recommended_action =
                      (if in_m then ''EXISTS_IN_MASTER'' else ''NEW_IN_MASTER'')\<rparr>
           in s\<lparr>detailed := detailed s @ [e],
                summary := dict_incr (summary s) ext,
                processed := processed s + 1,
                events := events s @ [MemberTest f h in_m]\<rparr>))"

fun analyze :: "env \<Rightarrow> string list \<Rightarrow> locals \<Rightarrow> locals" where
  "analyze env [] s = s"
| "analyze env (f # fs) s = analyze env fs (analyze_step env f s)"

text \<open>The scanning phase: the master root, then each optional root that is given and non-empty.\<close>

definition scan_optional :: "env \<Rightarrow> string option \<Rightarrow> scan_state \<Rightarrow> scan_state" where
  "scan_optional env root_path st =
     (case root_path of
        None \<Rightarrow> st
      | Some r \<Rightarrow> if r \<noteq> [] then scan_folder env r st else st)"

definition scan_roots :: "env \<Rightarrow> string \<Rightarrow> string option \<Rightarrow> string option \<Rightarrow> scan_state" where
  "scan_roots env master musik evo =
     scan_optional env evo (scan_optional env musik (scan_folder env master ([], [])))"

definition process_files :: "env \<Rightarrow> string \<Rightarrow> string list \<Rightarrow> locals" where
  "process_files env master all_files =
     analyze env all_files (index_master env master all_files init_locals)"

text \<open>
  The four report files, as the values written into them (not their text encodings).
\<close>

record json_document =
  generated :: int
  master_path :: string
  total_files :: nat
  total_errors :: nat
  files :: "entry list"

type_synonym csv_row =
  "string \<times> string \<times> string \<times> int option \<times> rat option \<times> bool \<times> int \<times> string"

record summary_text =
  summary_generated :: int
  summary_master :: string
  total_scanned :: nat
  files_in_master :: nat
  new_files :: nat
  by_format :: "(string \<times> nat) list"
  errors_encountered :: "nat option"
  processing_time :: int

record run_result =
  report_json :: json_document
  report_detailed_csv :: "csv_row list"
  report_summary :: summary_text
  report_errors :: "(string list \<times> string list) option"
  run_events :: "event list"

definition csv_of :: "entry \<Rightarrow> csv_row" where
  "csv_of r =
     (source_path r, filename r, format r, bitrate_kbps r, duration_sec r, in_master r,
      quality_rank r, recommended_action r)"

definition write_reports :: "env \<Rightarrow> string \<Rightarrow> int \<Rightarrow> string list \<Rightarrow> locals \<Rightarrow> run_result" where
  "write_reports env master start_time errors s =
     \<lparr>report_json =
        \<lparr>generated = datetime_now env 1,
         master_path = master,
         total_files = length (detailed s),
         total_errors = length errors + length (hash_errors s),
         files = detailed s\<rparr>,
      report_detailed_csv = map csv_of (detailed s),
      report_summary =
        \<lparr>summary_generated = datetime_now env 2,
         summary_master = master,
         total_scanned = length (detailed s),
         files_in_master = length (filter in_master (detailed s)),
         new_files = length (filter (\<lambda>r. \<not> in_master r) (detailed s)),
         by_format = sort_key fst (summary s),
         errors_encountered =
           (if errors \<noteq> [] \<or> hash_errors s \<noteq> []
            then Some (length errors + length (hash_errors s)) else None),
         processing_time = datetime_now env 3 - start_time\<rparr>,
      report_errors =
        (if errors \<noteq> [] \<or> hash_errors s \<noteq> [] then Some (errors, hash_errors s) else None),
      run_events = events s\<rparr>"

datatype exit = SystemExit nat

text \<open>\<open>main\<close>, with \<open>sys.argv\<close> as its argument.\<close>

definition main :: "env \<Rightarrow> string list \<Rightarrow> exit + run_result" where
  "main env argv =
     (if length argv < 2 then Inl (SystemExit 1)
      else
        (let master = argv ! 1;
             musik = (if length argv > 2 then Some (argv ! 2) else None);
             evo = (if length argv > 3 then Some (argv ! 3) else None);
             start_time = datetime_now env 0;
             (all_files, errors) = scan_roots env master musik evo
         in Inr (write_reports env master start_time errors
                   (process_files env master all_files))))"

section \<open>Notions used in the statements\<close>

text \<open>
  What the index loop logs for one file it selects, the keys the index holds after the
  loop has run over a list of files, and the record the analysis loop builds for a file
  with digest \<open>h\<close> against an index \<open>m\<close>.
\<close>

definition index_events :: "env \<Rightarrow> string \<Rightarrow> event list" where
  "index_events env f =
     (case hash_file env f of
        None \<Rightarrow> [MasterHashed f None]
      | Some d \<Rightarrow>
          if d = [] then [MasterHashed f (Some d)]
          else [MasterHashed f (Some d), MasterInsert d f])"

definition index_keys :: "env \<Rightarrow> string \<Rightarrow> string list \<Rightarrow> string set" where
  "index_keys env master fs =
     {d. d \<noteq> [] \<and> (\<exists>f\<in>set fs. startswith f master \<and> hash_file env f = Some d)}"

definition entry_for :: "env \<Rightarrow> (string \<rightharpoonup> string) \<Rightarrow> string \<Rightarrow> string \<Rightarrow> entry" where
  "entry_for env m f h =
     \<lparr>source_path = f,
      filename = path_name (Path f),
      format = lower (path_suffix (Path f)),
      bitrate_kbps = fst (get_bitrate_and_duration env f),
      duration_sec =
        (case snd (get_bitrate_and_duration env f) of
           None \<Rightarrow> None
         | Some d \<Rightarrow> if d \<noteq> 0 then Some (py_round2 d) else None),
      hash = h,
      in_master = (m h \<noteq> None),
      quality_rank =
        compute_quality_rank (lower (path_suffix (Path f))) (fst (get_bitrate_and_duration env f)),
      recommended_action = (if m h \<noteq> None then ''EXISTS_IN_MASTER'' else ''NEW_IN_MASTER'')\<rparr>"

definition hashable :: "env \<Rightarrow> string \<Rightarrow> bool" where
  "hashable env f = (hash_file env f \<noteq> None)"

text \<open>The outcome of the scanning phase of \<open>main\<close> for an argument vector.\<close>

definition scanned :: "env \<Rightarrow> string list \<Rightarrow> scan_state" where
  "scanned env argv =
     scan_roots env (argv ! 1)
       (if length argv > 2 then Some (argv ! 2) else None)
       (if length argv > 3 then Some (argv ! 3) else None)"

text \<open>
  Every file of a tree, whatever its name and wherever it lies, in the order of the
  walk: the files of a directory, then the files below each of its subdirectories.
  Each comes with the names of the directories between the root and the file, its
  path, its name and the outcome of the check. On these the conditions of the scanner
  are predicates: the three file filters, an \<open>OSError\<close> from the check, and whether the
  walk reaches the file at all (no directory above it is pruned).
\<close>

type_synonym found_file = "string list \<times> pure_path \<times> string \<times> fstatus"

fun direct_files :: "string \<Rightarrow> string list \<Rightarrow> fs_entry list \<Rightarrow> found_file list" where
  "direct_files dirpath anc [] = []"
| "direct_files dirpath anc (FileEntry fname status # es) =
     (anc, path_div (Path dirpath) fname, fname, status) # direct_files dirpath anc es"
| "direct_files dirpath anc (DirEntry d sub # es) = direct_files dirpath anc es"

fun files_under :: "string \<Rightarrow> string list \<Rightarrow> fs_entry list \<Rightarrow> found_file list"
  and files_below :: "string \<Rightarrow> string list \<Rightarrow> fs_entry list \<Rightarrow> found_file list" where
  "files_under dirpath anc entries =
     direct_files dirpath anc entries @ files_below dirpath anc entries"
| "files_below dirpath anc [] = []"
| "files_below dirpath anc (FileEntry fname status # es) = files_below dirpath anc es"
| "files_below dirpath anc (DirEntry d sub # es) =
     files_under (os_path_join dirpath d) (anc @ [d]) sub @ files_below dirpath anc es"

definition passes_filters :: "found_file \<Rightarrow> bool" where
  "passes_filters x =
     (case x of (anc, p, fname, status) \<Rightarrow>
        \<not> startswith fname ''._'' \<and> lower (path_suffix p) \<in> set AUDIO_EXT \<and>
        (case status of Regular sz \<Rightarrow> sz > 0 | NotRegular \<Rightarrow> False | AccessError msg \<Rightarrow> False))"

definition fails_check :: "found_file \<Rightarrow> bool" where
  "fails_check x =
     (case x of (anc, p, fname, status) \<Rightarrow>
        \<not> startswith fname ''._'' \<and> lower (path_suffix p) \<in> set AUDIO_EXT \<and>
        (case status of Regular sz \<Rightarrow> False | NotRegular \<Rightarrow> False | AccessError msg \<Rightarrow> True))"

definition reachable :: "found_file \<Rightarrow> bool" where
  "reachable x = (\<not> list_ex pruned (fst x))"

definition access_message :: "found_file \<Rightarrow> string" where
  "access_message x =
     (case x of (anc, p, fname, status) \<Rightarrow>
        ''Cannot access: '' @ path_str p @ '' - '' @
        (case status of Regular sz \<Rightarrow> [] | NotRegular \<Rightarrow> [] | AccessError msg \<Rightarrow> msg))"

definition found_paths :: "found_file list \<Rightarrow> string list" where
  "found_paths xs = map (\<lambda>x. path_str (fst (snd x))) (filter (\<lambda>x. reachable x \<and> passes_filters x) xs)"

definition found_errors :: "found_file list \<Rightarrow> string list" where
  "found_errors xs = map access_message (filter (\<lambda>x. reachable x \<and> fails_check x) xs)"

definition root_files :: "env \<Rightarrow> string \<Rightarrow> found_file list" where
  "root_files env root_path =
     (case fs_root env (path_str (Path root_path)) of
        None \<Rightarrow> []
      | Some (FileEntry fname status) \<Rightarrow> []
      | Some (DirEntry d entries) \<Rightarrow> files_under (path_str (Path root_path)) [] entries)"

text \<open>
  The index as the first loop leaves it, and the two halves of the log of a run: what
  the index loop logs, and the membership tests of the analysis loop.
\<close>

definition complete_index :: "env \<Rightarrow> string \<Rightarrow> string list \<Rightarrow> string \<rightharpoonup> string" where
  "complete_index env master fs = master_hashes (index_master env master fs init_locals)"

definition index_log :: "env \<Rightarrow> string \<Rightarrow> string list \<Rightarrow> event list" where
  "index_log env master fs =
     concat (map (index_events env) (filter (\<lambda>f. startswith f master) fs))"

definition test_log :: "env \<Rightarrow> string \<Rightarrow> string list \<Rightarrow> event list" where
  "test_log env master fs =
     map (\<lambda>f. MemberTest f (the (hash_file env f))
                (the (hash_file env f) \<in> index_keys env master fs))
       (filter (hashable env) fs)"

fun is_member_test :: "event \<Rightarrow> bool" where
  "is_member_test (MemberTest f h b) = True"
| "is_member_test (MasterHashed f h) = False"
| "is_member_test (MasterInsert h f) = False"


section \<open>Example worlds\<close>

text \<open>
  Small worlds on which the functions are evaluated. The digest is a stand-in for
  SHA-1 that is injective and never empty; the clock counts its readings.
\<close>

definition world ::
  "(string \<times> fs_entry) list \<Rightarrow> (string \<times> string) list \<Rightarrow> (string \<times> mutagen_result) list \<Rightarrow> env"
  where
  "world roots contents tags =
     \<lparr>fs_root = map_of roots,
      file_bytes =
        (\<lambda>p. case map_of contents p of None \<Rightarrow> Inl FileNotFoundError | Some c \<Rightarrow> Inr c),
      sha1_hexdigest = (\<lambda>c. ''sha1:'' @ c),
      MutagenFile = (\<lambda>p. case map_of tags p of None \<Rightarrow> MutagenRaises | Some r \<Rightarrow> r),
      datetime_now = int\<rparr>"

text \<open>A master root \<open>/m\<close> and a secondary root \<open>/m2\<close> whose name extends the master's.\<close>

definition world_prefix :: env where
  "world_prefix = world
     [(''/m'', DirEntry ''m'' [FileEntry ''a.flac'' (Regular 3)]),
      (''/m2'', DirEntry ''m2'' [FileEntry ''b.mp3'' (Regular 3)])]
     [(''/m/a.flac'', ''XXX''), (''/m2/b.mp3'', ''YYY'')]
     []"

text \<open>A directory \<open>music\<close> in the working directory, to be named as \<open>./music\<close>.\<close>

definition world_dot :: env where
  "world_dot = world
     [(''music'', DirEntry ''music'' [FileEntry ''a.flac'' (Regular 3)])]
     [(''music/a.flac'', ''XXX'')]
     []"

text \<open>A file whose tags give a bitrate of 128000 bit/s and a length of zero seconds.\<close>

definition world_zero :: env where
  "world_zero = world
     [(''/m'', DirEntry ''m'' [FileEntry ''a.mp3'' (Regular 3)])]
     [(''/m/a.mp3'', ''XXX'')]
     [(''/m/a.mp3'', MutagenInfo (Some 128000) (Some 0))]"


text \<open>A master root with one file that can be read and one that cannot.\<close>

definition world_unreadable :: env where
  "world_unreadable = world
     [(''/m'', DirEntry ''m''
        [FileEntry ''a.flac'' (Regular 3), FileEntry ''b.mp3'' (Regular 3)])]
     [(''/m/a.flac'', ''XXX'')]
     []"

text \<open>Tag readings of every kind: none, an empty one, and one with both fields.\<close>

definition world_tags :: env where
  "world_tags = world
     []
     []
     [(''none'', MutagenNone),
      (''bare'', MutagenInfo None None),
      (''full'', MutagenInfo (Some 127500) (Some (7 / 2)))]"

text \<open>A tag reading with a bitrate just above \<open>1000 * 2 ^ 44\<close> bit/s.\<close>

definition world_huge :: env where
  "world_huge = world
     []
     []
     [(''huge'', MutagenInfo (Some 17592186044417499) None)]"

section \<open>The hasher and the two loops of main\<close>

declare read_loop.simps [simp del]

lemma read_loop_all: "0 < n \<Longrightarrow> read_loop n rest h = h @ rest"
proof (induction n rest h rule: read_loop.induct)
  case (1 block_size rest h)
  show ?case
  proof (cases "take block_size rest = []")
    case True
    with "1.prems" have "rest = []" by (cases rest) auto
    then show ?thesis by (subst read_loop.simps) simp
  next
    case False
    with "1.IH" "1.prems" have "read_loop block_size (drop block_size rest) (h @ take block_size rest)
        = (h @ take block_size rest) @ drop block_size rest"
      by simp
    with False show ?thesis by (subst read_loop.simps) simp
  qed
qed

lemma hash_file_eq:
  "hash_file env path =
     (case file_bytes env path of Inl e \<Rightarrow> None | Inr content \<Rightarrow> Some (sha1_hexdigest env content))"
  by (simp add: hash_file_def read_loop_all split: sum.splits)

lemma index_step_keeps:
  "detailed (index_step env master f s) = detailed s"
  "summary (index_step env master f s) = summary s"
  "hash_errors (index_step env master f s) = hash_errors s"
  "processed (index_step env master f s) = processed s"
  by (simp_all add: index_step_def Let_def split: option.splits)

lemma index_master_keeps:
  "detailed (index_master env master fs s) = detailed s"
  "summary (index_master env master fs s) = summary s"
  "hash_errors (index_master env master fs s) = hash_errors s"
  "processed (index_master env master fs s) = processed s"
  by (induction fs arbitrary: s; simp add: index_step_keeps)+

lemma events_index_step:
  "events (index_step env master f s) =
     events s @ (if startswith f master then index_events env f else [])"
  by (simp add: index_step_def index_events_def Let_def split: option.splits)

lemma events_index_master:
  "events (index_master env master fs s) =
     events s @ concat (map (index_events env) (filter (\<lambda>f. startswith f master) fs))"
  by (induction fs arbitrary: s) (simp_all add: events_index_step)

lemma dom_index_step:
  "dom (master_hashes (index_step env master f s)) =
     dom (master_hashes s) \<union> index_keys env master [f]"
  by (auto simp: index_step_def index_keys_def Let_def split: option.splits if_splits)

lemma index_keys_Cons:
  "index_keys env master (f # fs) = index_keys env master [f] \<union> index_keys env master fs"
  by (auto simp: index_keys_def)

lemma dom_index_master:
  "dom (master_hashes (index_master env master fs s)) =
     dom (master_hashes s) \<union> index_keys env master fs"
proof (induction fs arbitrary: s)
  case Nil
  show ?case by (simp add: index_keys_def)
next
  case (Cons f fs)
  show ?case
    by (simp add: Cons.IH dom_index_step index_keys_Cons [of env master f fs] Un_assoc)
qed

lemma analyze_step_None:
  "hash_file env f = None \<Longrightarrow> analyze_step env f s = s\<lparr>hash_errors := hash_errors s @ [f]\<rparr>"
  by (simp add: analyze_step_def)

lemma analyze_step_Some:
  "hash_file env f = Some h \<Longrightarrow>
   analyze_step env f s =
     s\<lparr>detailed := detailed s @ [entry_for env (master_hashes s) f h],
       summary := dict_incr (summary s) (lower (path_suffix (Path f))),
       processed := processed s + 1,
       events := events s @ [MemberTest f h (master_hashes s h \<noteq> None)]\<rparr>"
  by (simp add: analyze_step_def entry_for_def Let_def split: prod.splits)

lemma analyze_master_hashes:
  "master_hashes (analyze env fs s) = master_hashes s"
proof (induction fs arbitrary: s)
  case Nil
  show ?case by simp
next
  case (Cons f fs)
  show ?case
    by (cases "hash_file env f") (simp_all add: Cons.IH analyze_step_None analyze_step_Some)
qed

lemma analyze_detailed:
  "detailed (analyze env fs s) =
     detailed s @
     map (\<lambda>f. entry_for env (master_hashes s) f (the (hash_file env f))) (filter (hashable env) fs)"
proof (induction fs arbitrary: s)
  case Nil
  show ?case by simp
next
  case (Cons f fs)
  show ?case
    by (cases "hash_file env f")
      (simp_all add: Cons.IH analyze_step_None analyze_step_Some hashable_def)
qed

lemma analyze_hash_errors:
  "hash_errors (analyze env fs s) = hash_errors s @ filter (\<lambda>f. \<not> hashable env f) fs"
proof (induction fs arbitrary: s)
  case Nil
  show ?case by simp
next
  case (Cons f fs)
  show ?case
    by (cases "hash_file env f")
      (simp_all add: Cons.IH analyze_step_None analyze_step_Some hashable_def)
qed

lemma analyze_events:
  "events (analyze env fs s) =
     events s @
     map (\<lambda>f. MemberTest f (the (hash_file env f)) (master_hashes s (the (hash_file env f)) \<noteq> None))
       (filter (hashable env) fs)"
proof (induction fs arbitrary: s)
  case Nil
  show ?case by simp
next
  case (Cons f fs)
  show ?case
    by (cases "hash_file env f")
      (simp_all add: Cons.IH analyze_step_None analyze_step_Some hashable_def)
qed

section \<open>Rounding and float division\<close>

declare bit_length.simps [simp del]

lemma py_round_nearest: "\<bar>of_int (py_round x) - x\<bar> \<le> 1 / 2"
proof -
  have "of_int \<lfloor>x\<rfloor> \<le> x" "x < of_int \<lfloor>x\<rfloor> + 1"
    by linarith+
  then show ?thesis
    by (auto simp: py_round_def Let_def)
qed

lemma py_round_of_int: "py_round (of_int z) = z"
  by (simp add: py_round_def)

lemma py_round_unique:
  assumes "\<bar>x - of_int n\<bar> < 1 / 2"
  shows "py_round x = n"
proof -
  have fl: "of_int \<lfloor>x\<rfloor> \<le> x" "x < of_int \<lfloor>x\<rfloor> + 1"
    by linarith+
  from assms have n: "of_int n - 1 / 2 < x" "x < of_int n + 1 / 2"
    by linarith+
  show ?thesis
  proof (cases "x - of_int \<lfloor>x\<rfloor> < 1 / 2")
    case True
    with fl n have "(of_int n :: rat) < of_int \<lfloor>x\<rfloor> + 1" "(of_int \<lfloor>x\<rfloor> :: rat) < of_int n + 1"
      by linarith+
    then have "n = \<lfloor>x\<rfloor>"
      by linarith
    with True show ?thesis by (simp add: py_round_def Let_def)
  next
    case False
    with fl n have "(of_int n :: rat) < of_int \<lfloor>x\<rfloor> + 2" "(of_int \<lfloor>x\<rfloor> :: rat) < of_int n"
      by linarith+
    then have eq: "n = \<lfloor>x\<rfloor> + 1"
      by linarith
    with n have "1 / 2 < x - of_int \<lfloor>x\<rfloor>"
      by simp
    with False eq show ?thesis by (simp add: py_round_def Let_def)
  qed
qed

lemma py_round_tie:
  "py_round (of_int f + 1 / 2) = (if even f then f else f + 1)"
proof -
  have "\<lfloor>(of_int f + 1 / 2 :: rat)\<rfloor> = f"
    by (rule floor_unique) simp_all
  then show ?thesis by (simp add: py_round_def Let_def)
qed

lemma bit_length_upper: "n < 2 ^ bit_length n"
proof (induction n rule: bit_length.induct)
  case (1 n)
  show ?case
  proof (cases "n = 0")
    case True
    then show ?thesis by (simp add: bit_length.simps)
  next
    case False
    with 1 have "n div 2 < 2 ^ bit_length (n div 2)" by simp
    then have "n < 2 * 2 ^ bit_length (n div 2)" by arith
    with False show ?thesis by (subst bit_length.simps) simp
  qed
qed

lemma bit_length_lower: "0 < n \<Longrightarrow> 2 ^ bit_length n \<le> 2 * n"
proof (induction n rule: bit_length.induct)
  case (1 n)
  then have n: "n \<noteq> 0" by simp
  show ?case
  proof (cases "n div 2 = 0")
    case True
    with n have "n = 1" by arith
    then show ?thesis by (simp add: bit_length.simps [of "Suc 0"] bit_length.simps [of 0])
  next
    case False
    with 1 n have "2 ^ bit_length (n div 2) \<le> 2 * (n div 2)" by simp
    then have "2 * 2 ^ bit_length (n div 2) \<le> 2 * n" by arith
    with n show ?thesis by (subst bit_length.simps) simp
  qed
qed

lemma powi_nat_diff: "(2 :: rat) powi (int a - int b) = 2 ^ a / 2 ^ b"
  by (simp add: power_int_diff)

lemma quotient_exponent:
  fixes n d :: nat
  assumes "0 < n" "0 < d"
  shows "2 powi (int (bit_length n) - int (bit_length d) - 1) < (of_nat n / of_nat d :: rat)"
    and "(of_nat n / of_nat d :: rat) < 2 powi (int (bit_length n) - int (bit_length d) + 1)"
proof -
  let ?bn = "bit_length n" and ?bd = "bit_length d"
  have n_up: "(of_nat n :: rat) < 2 ^ ?bn"
    using bit_length_upper [of n] by (metis of_nat_less_iff of_nat_numeral of_nat_power)
  have d_up: "(of_nat d :: rat) < 2 ^ ?bd"
    using bit_length_upper [of d] by (metis of_nat_less_iff of_nat_numeral of_nat_power)
  have n_lo: "(2 :: rat) ^ ?bn \<le> 2 * of_nat n"
    using bit_length_lower [OF assms(1)]
    by (metis of_nat_le_iff of_nat_mult of_nat_numeral of_nat_power)
  have d_lo: "(2 :: rat) ^ ?bd \<le> 2 * of_nat d"
    using bit_length_lower [OF assms(2)]
    by (metis of_nat_le_iff of_nat_mult of_nat_numeral of_nat_power)
  have pos: "(0 :: rat) < of_nat n" "(0 :: rat) < of_nat d" "(0 :: rat) < 2 ^ ?bn" "(0 :: rat) < 2 ^ ?bd"
    using assms by simp_all
  have "(2 :: rat) ^ ?bn * of_nat d < (2 * of_nat n) * 2 ^ ?bd"
    using n_lo d_up pos by (intro mult_le_less_imp_less) simp_all
  then have "(2 :: rat) ^ ?bn / 2 ^ ?bd / 2 < of_nat n / of_nat d"
    using pos by (simp add: field_simps)
  moreover have "(2 :: rat) powi (int ?bn - int ?bd - 1) = 2 ^ ?bn / 2 ^ ?bd / 2"
    by (simp add: power_int_diff)
  ultimately show "2 powi (int ?bn - int ?bd - 1) < (of_nat n / of_nat d :: rat)"
    by simp
  have "(of_nat n :: rat) * 2 ^ ?bd < 2 ^ ?bn * (2 * of_nat d)"
    using n_up d_lo pos by (intro mult_less_le_imp_less) simp_all
  then have "of_nat n / of_nat d < (2 :: rat) ^ ?bn / 2 ^ ?bd * 2"
    using pos by (simp add: field_simps)
  moreover have "(2 :: rat) powi (int ?bn - int ?bd + 1) = 2 ^ ?bn / 2 ^ ?bd * 2"
    by (simp add: power_int_add power_int_diff)
  ultimately show "(of_nat n / of_nat d :: rat) < 2 powi (int ?bn - int ?bd + 1)"
    by simp
qed

lemma abs_quotient_nat:
  "\<bar>of_int a / of_int b :: rat\<bar> = of_nat (nat \<bar>a\<bar>) / of_nat (nat \<bar>b\<bar>)"
  by (simp add: abs_divide)

lemma binary_exponent_bounds:
  assumes "a \<noteq> 0" "b \<noteq> 0"
  shows "2 powi binary_exponent a b \<le> \<bar>of_int a / of_int b :: rat\<bar>"
    and "\<bar>of_int a / of_int b :: rat\<bar> < 2 powi (binary_exponent a b + 1)"
proof -
  let ?k = "int (bit_length (nat \<bar>a\<bar>)) - int (bit_length (nat \<bar>b\<bar>))"
  let ?x = "\<bar>of_int a / of_int b :: rat\<bar>"
  from assms have pos: "0 < nat \<bar>a\<bar>" "0 < nat \<bar>b\<bar>" by simp_all
  from quotient_exponent [OF pos]
  have lo: "2 powi (?k - 1) < ?x" and hi: "?x < 2 powi (?k + 1)"
    by (simp_all only: abs_quotient_nat)
  show "2 powi binary_exponent a b \<le> ?x"
    using lo by (simp add: binary_exponent_def Let_def)
  show "?x < 2 powi (binary_exponent a b + 1)"
    using hi by (auto simp: binary_exponent_def Let_def)
qed

lemma powi_le: "p \<le> q \<Longrightarrow> (2 :: rat) powi p \<le> 2 powi q"
  by (rule power_int_increasing) simp_all

lemma binary_exponent_unique:
  assumes "a \<noteq> 0" "b \<noteq> 0"
    and "2 powi p \<le> \<bar>of_int a / of_int b :: rat\<bar>"
    and "\<bar>of_int a / of_int b :: rat\<bar> < 2 powi (p + 1)"
  shows "binary_exponent a b = p"
proof (rule ccontr)
  let ?q = "binary_exponent a b"
  let ?x = "\<bar>of_int a / of_int b :: rat\<bar>"
  assume "?q \<noteq> p"
  then consider "?q + 1 \<le> p" | "p + 1 \<le> ?q" by linarith
  then show False
  proof cases
    case 1
    from powi_le [OF 1] binary_exponent_bounds(2) [OF assms(1,2)] assms(3)
    show False by linarith
  next
    case 2
    from powi_le [OF 2] binary_exponent_bounds(1) [OF assms(1,2)] assms(4)
    show False by linarith
  qed
qed

lemma py_truediv_at:
  assumes "a \<noteq> 0" "b \<noteq> 0"
    and "2 powi p \<le> \<bar>of_int a / of_int b :: rat\<bar>"
    and "\<bar>of_int a / of_int b :: rat\<bar> < 2 powi (p + 1)"
    and "e = max (p - 52) (- 1074)"
    and "y = of_int (py_round (\<bar>of_int a / of_int b\<bar> / 2 powi e)) * 2 powi e"
  shows "py_truediv a b =
     (if 2 powi 1024 \<le> y then Inl OverflowError
      else Inr (if (a < 0) = (b < 0) then y else - y))"
  using assms(1,2,5,6) binary_exponent_unique [OF assms(1-4)]
  by (simp add: py_truediv_def Let_def)


lemma py_round_kbps:
  "\<bar>1000 * py_round (of_int b / 1000) - b\<bar> \<le> 500"
proof -
  have "\<bar>of_int (py_round (of_int b / 1000)) - (of_int b / 1000 :: rat)\<bar> \<le> 1 / 2"
    by (rule py_round_nearest)
  then have "\<bar>(of_int (1000 * py_round (of_int b / 1000) - b) :: rat)\<bar> \<le> 500"
    by (simp add: abs_le_iff field_simps)
  then have "(of_int \<bar>1000 * py_round (of_int b / 1000) - b\<bar> :: rat) \<le> of_int 500"
    by simp
  then show ?thesis
    by (simp only: of_int_le_iff)
qed

lemma small_quotient_exponent:
  assumes "b \<noteq> 0" "\<bar>b\<bar> < 17592186044416000"
  shows "- 10 \<le> binary_exponent b 1000" and "binary_exponent b 1000 \<le> 43"
proof -
  let ?x = "\<bar>of_int b / of_int 1000 :: rat\<bar>"
  let ?p = "binary_exponent b 1000"
  have bnd: "2 powi ?p \<le> ?x" "?x < 2 powi (?p + 1)"
    using binary_exponent_bounds [of b 1000] assms(1) by simp_all
  have xe: "?x = of_int \<bar>b\<bar> / 1000"
    by (simp add: abs_divide)
  from assms(1) have "1 \<le> \<bar>b\<bar>" by linarith
  then have "(of_int 1 :: rat) \<le> of_int \<bar>b\<bar>" by (simp only: of_int_le_iff)
  then have lo: "1 / 1000 \<le> ?x" by (simp add: xe)
  from assms(2) have "(of_int \<bar>b\<bar> :: rat) < of_int 17592186044416000"
    by (simp only: of_int_less_iff)
  then have hi: "?x < 17592186044416" by (simp add: xe)
  show "?p \<le> 43"
  proof (rule ccontr)
    assume "\<not> ?p \<le> 43"
    then have "44 \<le> ?p" by simp
    from powi_le [OF this] have "(17592186044416 :: rat) \<le> 2 powi ?p" by simp
    with bnd(1) hi show False by linarith
  qed
  show "- 10 \<le> ?p"
  proof (rule ccontr)
    assume "\<not> - 10 \<le> ?p"
    then have "?p + 1 \<le> - 10" by simp
    from powi_le [OF this] have "(2 :: rat) powi (?p + 1) \<le> 1 / 1024" by simp
    with bnd(2) lo show False by linarith
  qed
qed

lemma kbps_division:
  assumes "\<bar>b\<bar> < 17592186044416000"
  shows "\<exists>q. py_truediv b 1000 = Inr q \<and> py_round q = py_round (of_int b / 1000)"
proof (cases "b = 0")
  case True
  then show ?thesis by (simp add: py_truediv_def py_round_def)
next
  case False
  define x where "x = \<bar>of_int b / of_int 1000 :: rat\<bar>"
  define e where "e = binary_exponent b 1000 - 52"
  define m where "m = py_round (x / 2 powi e)"
  define y where "y = of_int m * (2 :: rat) powi e"
  define q where "q = (if b < 0 then - y else y)"
  define x' where "x' = (of_int b / 1000 :: rat)"
  from small_quotient_exponent [OF False assms] have e_range: "- 62 \<le> e" "e \<le> - 9"
    by (simp_all add: e_def)
  then have emax: "max (binary_exponent b 1000 - 52) (- 1074) = e"
    by (simp add: e_def)
  have pe: "0 < (2 :: rat) powi e" by simp
  have pe_le: "(2 :: rat) powi e \<le> 1 / 512"
    using powi_le [OF e_range(2)] by simp
  have xe: "x = of_int \<bar>b\<bar> / 1000"
    by (simp add: x_def abs_divide)
  from assms have "(of_int \<bar>b\<bar> :: rat) < of_int 17592186044416000"
    by (simp only: of_int_less_iff)
  then have x_hi: "x < 17592186044416" by (simp add: xe)
  have near: "\<bar>of_int m - x / 2 powi e\<bar> \<le> 1 / 2"
    unfolding m_def by (rule py_round_nearest)
  have "y - x = (of_int m - x / 2 powi e) * 2 powi e"
    using pe by (simp add: y_def field_simps)
  then have "\<bar>y - x\<bar> = \<bar>of_int m - x / 2 powi e\<bar> * 2 powi e"
    using pe by (simp add: abs_mult)
  also have "\<dots> \<le> 1 / 2 * (1 / 512)"
    using near pe pe_le by (intro mult_mono) simp_all
  finally have close: "\<bar>y - x\<bar> \<le> 1 / 1024" by simp
  have y_hi: "y < 2 powi 1024"
  proof -
    from close x_hi have "y < 17592186044417" by linarith
    also have "\<dots> \<le> (2 :: rat) powi 45" by simp
    also have "\<dots> \<le> 2 powi 1024" by (rule powi_le) simp
    finally show ?thesis .
  qed
  have td: "py_truediv b 1000 = Inr q"
  proof -
    have "py_truediv b 1000 =
        (if 2 powi 1024 \<le> y then Inl OverflowError
         else Inr (if (b < 0) = ((1000 :: int) < 0) then y else - y))"
      using False unfolding py_truediv_def Let_def emax y_def m_def x_def by simp
    with y_hi show ?thesis by (cases "b < 0") (simp_all add: q_def)
  qed
  have xs: "x' = (if b < 0 then - x else x)"
    by (simp add: x_def x'_def abs_divide)
  have qx: "\<bar>q - x'\<bar> = \<bar>y - x\<bar>"
    by (cases "b < 0") (simp_all add: q_def xs abs_minus_commute)
  show ?thesis
  proof (cases "500 dvd b")
    case True
    then obtain j where j: "b = 500 * j" by (auto elim: dvdE)
    have xj: "x = of_int \<bar>j\<bar> / 2"
      by (simp add: xe j abs_mult)
    from e_range have en: "0 \<le> - 1 - e" by simp
    have "(2 :: rat) powi (- 1 - e) = 2 powi (- 1) / 2 powi e"
      by (rule power_int_diff) simp
    then have Q: "(2 :: rat) powi (- 1 - e) = 1 / 2 / 2 powi e"
      by simp
    have A: "(2 :: rat) powi (- 1 - e) = 2 ^ nat (- 1 - e)"
      using en by (simp add: power_int_def)
    have "x / 2 powi e = of_int \<bar>j\<bar> * (1 / 2 / 2 powi e)"
      by (simp add: xj)
    also have "\<dots> = of_int \<bar>j\<bar> * 2 ^ nat (- 1 - e)"
      by (simp only: Q [symmetric] A)
    also have "\<dots> = of_int (\<bar>j\<bar> * 2 ^ nat (- 1 - e))"
      by simp
    finally have arg: "x / 2 powi e = of_int (\<bar>j\<bar> * 2 ^ nat (- 1 - e))" .
    have "of_int m = x / 2 powi e"
      unfolding m_def by (simp only: arg py_round_of_int)
    then have "y = x"
      using pe by (simp add: y_def)
    with qx have "q = x'" by simp
    with td have tx: "py_truediv b 1000 = Inr x'" by simp
    show ?thesis
    proof (intro exI conjI)
      show "py_truediv b 1000 = Inr x'" by (rule tx)
      show "py_round x' = py_round (of_int b / 1000)" by (simp only: x'_def)
    qed
  next
    case False
    define n where "n = py_round x'"
    have "\<bar>1000 * n - b\<bar> \<le> 500"
      unfolding n_def x'_def by (rule py_round_kbps)
    moreover have "\<bar>1000 * n - b\<bar> \<noteq> 500"
    proof
      assume "\<bar>1000 * n - b\<bar> = 500"
      then have "b = 1000 * n - 500 \<or> b = 1000 * n + 500" by linarith
      then have "b = 500 * (2 * n - 1) \<or> b = 500 * (2 * n + 1)" by (elim disjE) simp_all
      then have "500 dvd b"
      proof
        assume "b = 500 * (2 * n - 1)"
        then show "500 dvd b" by (rule dvdI)
      next
        assume "b = 500 * (2 * n + 1)"
        then show "500 dvd b" by (rule dvdI)
      qed
      with False show False by simp
    qed
    ultimately have t: "\<bar>1000 * n - b\<bar> \<le> 499" by linarith
    then have "(of_int \<bar>1000 * n - b\<bar> :: rat) \<le> of_int 499"
      by (simp only: of_int_le_iff)
    then have t': "\<bar>1000 * of_int n - of_int b :: rat\<bar> \<le> 499"
      by simp
    have "\<bar>of_int n - x'\<bar> \<le> 499 / 1000"
      unfolding x'_def using t' by linarith
    with close qx have "\<bar>q - of_int n\<bar> < 1 / 2" by linarith
    then have rq: "py_round q = n" by (rule py_round_unique)
    show ?thesis
    proof (intro exI conjI)
      show "py_truediv b 1000 = Inr q" by (rule td)
      show "py_round q = py_round (of_int b / 1000)" using rq by (simp only: n_def x'_def)
    qed
  qed
qed

lemma huge_quotient: "py_truediv 17592186044417499 1000 = Inr (35184372088835 / 2)"
proof -
  have nz: "(17592186044417499 :: int) \<noteq> 0" "(1000 :: int) \<noteq> 0" by simp_all
  have lo: "2 powi 44 \<le> \<bar>of_int 17592186044417499 / of_int 1000 :: rat\<bar>" by simp
  have hi: "\<bar>of_int 17592186044417499 / of_int 1000 :: rat\<bar> < 2 powi (44 + 1)" by simp
  have e: "(- 8 :: int) = max (44 - 52) (- 1074)" by simp
  have arg: "\<bar>of_int 17592186044417499 / of_int 1000 :: rat\<bar> / 2 powi (- 8) =
      4503599627370879744 / 1000" by simp
  have r: "py_round (4503599627370879744 / 1000) = 4503599627370880"
    by (rule py_round_unique) simp
  have y: "(35184372088835 / 2 :: rat) =
      of_int (py_round (\<bar>of_int 17592186044417499 / of_int 1000\<bar> / 2 powi (- 8))) * 2 powi (- 8)"
    by (simp only: arg r) simp
  from py_truediv_at [OF nz lo hi e y] show ?thesis by simp
qed

lemma huge_rounded: "py_round (35184372088835 / 2) = 17592186044418"
  using py_round_tie [of 17592186044417] by simp


lemma huge_quotient_even: "py_truediv 9007199254740993000 1000 = Inr 9007199254740992"
proof -
  have nz: "(9007199254740993000 :: int) \<noteq> 0" "(1000 :: int) \<noteq> 0" by simp_all
  have lo: "2 powi 53 \<le> \<bar>of_int 9007199254740993000 / of_int 1000 :: rat\<bar>" by simp
  have hi: "\<bar>of_int 9007199254740993000 / of_int 1000 :: rat\<bar> < 2 powi (53 + 1)" by simp
  have e: "(1 :: int) = max (53 - 52) (- 1074)" by simp
  have arg: "\<bar>of_int 9007199254740993000 / of_int 1000 :: rat\<bar> / 2 powi 1 =
      of_int 4503599627370496 + 1 / 2" by simp
  have r: "py_round (of_int 4503599627370496 + 1 / 2) = 4503599627370496"
    by (simp only: py_round_tie) simp
  have y: "(9007199254740992 :: rat) =
      of_int (py_round (\<bar>of_int 9007199254740993000 / of_int 1000\<bar> / 2 powi 1)) * 2 powi 1"
    by (simp only: arg r) simp
  from py_truediv_at [OF nz lo hi e y] show ?thesis by simp
qed

lemma get_bitrate_small:
  assumes "MutagenFile env path = MutagenInfo (Some b) d"
    and "\<bar>b\<bar> < 17592186044416000"
  shows "get_bitrate_and_duration env path = (Some (py_round (of_int b / 1000)), d)"
proof -
  from kbps_division [OF assms(2)] obtain q
    where "py_truediv b 1000 = Inr q" "py_round q = py_round (of_int b / 1000)"
    by blast
  with assms(1) show ?thesis by (simp add: get_bitrate_and_duration_def)
qed

section \<open>main as a whole\<close>

lemma main_eq:
  "main env argv =
     (if length argv < 2 then Inl (SystemExit 1)
      else Inr (write_reports env (argv ! 1) (datetime_now env 0) (snd (scanned env argv))
                  (process_files env (argv ! 1) (fst (scanned env argv)))))"
  by (simp add: main_def scanned_def Let_def split: prod.splits)


lemma main_ignores_extra_args_aux: "take 3 (tl argv) = take 3 (tl argv') \<Longrightarrow> main env argv = main env argv'"
proof -
  assume eq: "take 3 (tl argv) = take 3 (tl argv')"
  then have "length (take 3 (tl argv)) = length (take 3 (tl argv'))"
    by (rule arg_cong)
  then have len: "min 3 (length argv - 1) = min 3 (length argv' - 1)"
    by (simp add: min.commute)
  have nth: "\<And>i. i < 3 \<Longrightarrow> Suc i < length argv \<Longrightarrow> argv ! Suc i = argv' ! Suc i"
  proof -
    fix i assume i: "i < 3" "Suc i < length argv"
    then have "argv ! Suc i = take 3 (tl argv) ! i" by (simp add: nth_tl)
    also have "\<dots> = take 3 (tl argv') ! i" by (simp add: eq)
    also have "\<dots> = argv' ! Suc i" using i len by (simp add: nth_tl)
    finally show "argv ! Suc i = argv' ! Suc i" .
  qed
  have l2: "(length argv < 2) = (length argv' < 2)" using len by auto
  have g2: "(2 < length argv) = (2 < length argv')" using len by auto
  have g3: "(3 < length argv) = (3 < length argv')" using len by auto
  show ?thesis
  proof (cases "length argv < 2")
    case True
    then show ?thesis using l2 by (simp add: main_def)
  next
    case False
    then have a1: "argv ! 1 = argv' ! 1" using nth [of 0] by simp
    have a2: "2 < length argv \<Longrightarrow> argv ! 2 = argv' ! 2" using nth [of 1] by (simp add: numeral_2_eq_2)
    have a3: "3 < length argv \<Longrightarrow> argv ! 3 = argv' ! 3" using nth [of 2] by (simp add: numeral_3_eq_3 numeral_2_eq_2)
    have "scanned env argv = scanned env argv'"
      unfolding scanned_def using a1 a2 a3 g2 g3 by auto
    then show ?thesis using False l2 a1 by (simp add: main_eq)
  qed
qed

lemma complete_index_keys:
  "(complete_index env master fs h \<noteq> None) = (h \<in> index_keys env master fs)"
proof -
  have "dom (complete_index env master fs) = index_keys env master fs"
    by (simp add: complete_index_def dom_index_master init_locals_def)
  then show ?thesis by (auto simp: dom_def)
qed

lemma complete_index_keys_ex:
  "(\<exists>y. complete_index env master fs h = Some y) = (h \<in> index_keys env master fs)"
  using complete_index_keys [of env master fs h] by simp

lemma process_files_events:
  "events (process_files env master fs) =
     concat (map (index_events env) (filter (\<lambda>f. startswith f master) fs)) @
     map (\<lambda>f. MemberTest f (the (hash_file env f))
                (the (hash_file env f) \<in> index_keys env master fs))
       (filter (hashable env) fs)"
proof -
  have "events (process_files env master fs) =
      events (index_master env master fs init_locals) @
      map (\<lambda>f. MemberTest f (the (hash_file env f))
                 (complete_index env master fs (the (hash_file env f)) \<noteq> None))
        (filter (hashable env) fs)"
    by (simp add: process_files_def analyze_events complete_index_def)
  moreover have "events init_locals = []"
    by (simp add: init_locals_def)
  ultimately show ?thesis
    by (simp add: events_index_master complete_index_keys_ex)
qed

lemma process_files_detailed:
  "detailed (process_files env master fs) =
     map (\<lambda>f. entry_for env (complete_index env master fs) f (the (hash_file env f)))
       (filter (hashable env) fs)"
  by (simp add: process_files_def analyze_detailed index_master_keeps complete_index_def
      init_locals_def)

lemma process_files_hash_errors:
  "hash_errors (process_files env master fs) = filter (\<lambda>f. \<not> hashable env f) fs"
  by (simp add: process_files_def analyze_hash_errors index_master_keeps init_locals_def)

lemma entry_for_sel:
  "source_path (entry_for env m f h) = f"
  "hash (entry_for env m f h) = h"
  "in_master (entry_for env m f h) = (m h \<noteq> None)"
  "recommended_action (entry_for env m f h) =
     (if m h \<noteq> None then ''EXISTS_IN_MASTER'' else ''NEW_IN_MASTER'')"
  "bitrate_kbps (entry_for env m f h) = fst (get_bitrate_and_duration env f)"
  "duration_sec (entry_for env m f h) =
     (case snd (get_bitrate_and_duration env f) of
        None \<Rightarrow> None
      | Some d \<Rightarrow> if d \<noteq> 0 then Some (py_round2 d) else None)"
  by (simp_all add: entry_for_def)

lemma main_Inr:
  "main env argv = Inr r \<Longrightarrow>
   2 \<le> length argv \<and>
   r = write_reports env (argv ! 1) (datetime_now env 0) (snd (scanned env argv))
         (process_files env (argv ! 1) (fst (scanned env argv)))"
  by (auto simp: main_eq split: if_splits)

lemma write_reports_sel:
  "files (report_json (write_reports env master t errors s)) = detailed s"
  "run_events (write_reports env master t errors s) = events s"
  "report_detailed_csv (write_reports env master t errors s) = map csv_of (detailed s)"
  "report_errors (write_reports env master t errors s) =
     (if errors \<noteq> [] \<or> hash_errors s \<noteq> [] then Some (errors, hash_errors s) else None)"
  by (simp_all add: write_reports_def)

section \<open>Evaluating a run\<close>

named_theorems ev \<open>definitions unfolded to evaluate the scanner on an example world\<close>

lemmas [ev] = world_def scanned_def scan_roots_def scan_optional_def scan_folder_def
  Path_def splitroot_def path_str_def path_div_def path_name_def path_suffix_def os_path_join_def
  startswith_def endswith_def lower_def lower_char_def scan_file_def pruned_def AUDIO_EXT_def
  Let_def

lemma process_files_log:
  "events (process_files env master fs) = index_log env master fs @ test_log env master fs"
  by (simp add: process_files_events index_log_def test_log_def)

lemma index_log_no_test: "e \<in> set (index_log env master fs) \<Longrightarrow> \<not> is_member_test e"
  by (auto simp: index_log_def index_events_def split: option.splits if_splits)

lemma test_log_only_tests: "e \<in> set (test_log env master fs) \<Longrightarrow> is_member_test e"
  by (auto simp: test_log_def)

lemma index_log_hashed:
  "f \<in> set fs \<Longrightarrow> startswith f master \<Longrightarrow>
   MasterHashed f (hash_file env f) \<in> set (index_log env master fs)"
  by (force simp: index_log_def index_events_def split: option.splits)

lemma index_log_insert:
  "f \<in> set fs \<Longrightarrow> startswith f master \<Longrightarrow> hash_file env f = Some d \<Longrightarrow> d \<noteq> [] \<Longrightarrow>
   MasterInsert d f \<in> set (index_log env master fs)"
  by (force simp: index_log_def index_events_def)

lemma test_log_result:
  "MemberTest f h b \<in> set (test_log env master fs) \<Longrightarrow>
   b = (complete_index env master fs h \<noteq> None)"
  by (auto simp: test_log_def complete_index_keys_ex)

lemma test_log_hashable:
  "MemberTest f h b \<in> set (test_log env master fs) \<Longrightarrow> hash_file env f = Some h"
  by (auto simp: test_log_def hashable_def)

lemma detailed_paths:
  "map source_path (detailed (process_files env master fs)) = filter (hashable env) fs"
  by (simp add: process_files_detailed o_def entry_for_sel)

lemma csv_paths:
  "map (fst \<circ> csv_of) (detailed (process_files env master fs)) = filter (hashable env) fs"
  by (simp add: process_files_detailed o_def entry_for_sel csv_of_def)


section \<open>Order of index building and membership tests\<close>

text \<open>
  What holds of the order in every run that gets past the usage check: the log of the
  run is the log of the index loop followed by the log of the analysis loop, so no
  membership test comes before the end of the index loop. Before the first test, every
  scanned file that the index loop selects (its path starts with the master argument)
  has been hashed and, when the digest is non-empty, inserted; and every membership test
  answers for the index as the complete loop left it.
\<close>

lemma index_loop_before_tests:
  assumes "main env argv = Inr r"
    and "master = argv ! 1"
    and "all_files = fst (scanned env argv)"
  shows "run_events r = index_log env master all_files @ test_log env master all_files \<and>
    (\<forall>e\<in>set (index_log env master all_files). \<not> is_member_test e) \<and>
    (\<forall>e\<in>set (test_log env master all_files). is_member_test e) \<and>
    (\<forall>f\<in>set all_files. startswith f master \<longrightarrow>
       MasterHashed f (hash_file env f) \<in> set (index_log env master all_files)) \<and>
    (\<forall>f\<in>set all_files. \<forall>d. startswith f master \<and> hash_file env f = Some d \<and> d \<noteq> [] \<longrightarrow>
       MasterInsert d f \<in> set (index_log env master all_files)) \<and>
    (\<forall>f h b. MemberTest f h b \<in> set (test_log env master all_files) \<longrightarrow>
       b = (complete_index env master all_files h \<noteq> None))"
proof -
  from assms have "run_events r = events (process_files env master all_files)"
    by (auto dest!: main_Inr simp: write_reports_sel)
  then have "run_events r = index_log env master all_files @ test_log env master all_files"
    by (simp add: process_files_log)
  moreover have "\<forall>e\<in>set (index_log env master all_files). \<not> is_member_test e"
    using index_log_no_test by blast
  moreover have "\<forall>e\<in>set (test_log env master all_files). is_member_test e"
    using test_log_only_tests by blast
  moreover have "\<forall>f\<in>set all_files. startswith f master \<longrightarrow>
       MasterHashed f (hash_file env f) \<in> set (index_log env master all_files)"
    using index_log_hashed by blast
  moreover have "\<forall>f\<in>set all_files. \<forall>d. startswith f master \<and> hash_file env f = Some d \<and> d \<noteq> [] \<longrightarrow>
       MasterInsert d f \<in> set (index_log env master all_files)"
    using index_log_insert by blast
  moreover have "\<forall>f h b. MemberTest f h b \<in> set (test_log env master all_files) \<longrightarrow>
       b = (complete_index env master all_files h \<noteq> None)"
    using test_log_result by blast
  ultimately show ?thesis by blast
qed

lemma world_prefix_scanned:
  "scanned world_prefix [''prog'', ''/m'', ''/m2''] = ([''/m/a.flac'', ''/m2/b.mp3''], [])"
  by (simp add: world_prefix_def ev)

lemma world_prefix_master:
  "scan_folder world_prefix ''/m'' ([], []) = ([''/m/a.flac''], [])"
  by (simp add: world_prefix_def ev)

lemma world_prefix_hash:
  "hash_file world_prefix ''/m/a.flac'' = Some ''sha1:XXX''"
  "hash_file world_prefix ''/m2/b.mp3'' = Some ''sha1:YYY''"
  by (simp_all add: hash_file_eq world_prefix_def world_def)

lemma world_prefix_main:
  "main world_prefix [''prog'', ''/m'', ''/m2''] =
     Inr (write_reports world_prefix ''/m'' (datetime_now world_prefix 0) []
            (process_files world_prefix ''/m'' [''/m/a.flac'', ''/m2/b.mp3'']))"
  by (simp add: main_eq world_prefix_scanned)

lemma world_prefix_index_log:
  "index_log world_prefix ''/m'' [''/m/a.flac'', ''/m2/b.mp3''] =
     [MasterHashed ''/m/a.flac'' (Some ''sha1:XXX''), MasterInsert ''sha1:XXX'' ''/m/a.flac'',
      MasterHashed ''/m2/b.mp3'' (Some ''sha1:YYY''), MasterInsert ''sha1:YYY'' ''/m2/b.mp3'']"
  by (simp add: index_log_def index_events_def world_prefix_hash startswith_def)

lemma world_prefix_test_log:
  "test_log world_prefix ''/m'' [''/m/a.flac'', ''/m2/b.mp3''] =
     [MemberTest ''/m/a.flac'' ''sha1:XXX'' True, MemberTest ''/m2/b.mp3'' ''sha1:YYY'' True]"
  by (simp add: test_log_def index_keys_def hashable_def world_prefix_hash startswith_def)

lemma index_loop_before_tests_example:
  "main world_prefix [''prog'', ''/m'', ''/m2''] =
     Inr (projr (main world_prefix [''prog'', ''/m'', ''/m2''])) \<and>
   run_events (projr (main world_prefix [''prog'', ''/m'', ''/m2''])) =
     [MasterHashed ''/m/a.flac'' (Some ''sha1:XXX''), MasterInsert ''sha1:XXX'' ''/m/a.flac'',
      MasterHashed ''/m2/b.mp3'' (Some ''sha1:YYY''), MasterInsert ''sha1:YYY'' ''/m2/b.mp3'',
      MemberTest ''/m/a.flac'' ''sha1:XXX'' True, MemberTest ''/m2/b.mp3'' ''sha1:YYY'' True]"
proof -
  have run: "main world_prefix [''prog'', ''/m'', ''/m2''] =
      Inr (projr (main world_prefix [''prog'', ''/m'', ''/m2'']))"
    by (simp add: world_prefix_main)
  have "''/m'' = [''prog'', ''/m'', ''/m2''] ! 1"
    by simp
  from index_loop_before_tests [OF run this refl]
  have "run_events (projr (main world_prefix [''prog'', ''/m'', ''/m2''])) =
      index_log world_prefix ''/m'' (fst (scanned world_prefix [''prog'', ''/m'', ''/m2''])) @
      test_log world_prefix ''/m'' (fst (scanned world_prefix [''prog'', ''/m'', ''/m2'']))"
    by blast
  then show ?thesis
    using run by (simp add: world_prefix_scanned world_prefix_index_log world_prefix_test_log)
qed

section \<open>Which files feed the master index\<close>

text \<open>
  Claim C1. The claim is that a file's digest enters the master index exactly when the
  file was found under the master root. In the run \<open>prog /m /m2\<close> the scan of the master
  root \<open>/m\<close> finds \<open>/m/a.flac\<close> only, yet the digest of \<open>/m2/b.mp3\<close>, found under the
  secondary root, is inserted into the index, because the path \<open>/m2/b.mp3\<close> starts with
  the string \<open>/m\<close>; the file is then reported as present in the master.
\<close>

theorem secondary_root_file_enters_index:
  "fst (scan_folder world_prefix ''/m'' ([], [])) = [''/m/a.flac''] \<and>
   \<not> isl (main world_prefix [''prog'', ''/m'', ''/m2'']) \<and>
   MasterInsert ''sha1:YYY'' ''/m2/b.mp3''
     \<in> set (run_events (projr (main world_prefix [''prog'', ''/m'', ''/m2'']))) \<and>
   map source_path (files (report_json (projr (main world_prefix [''prog'', ''/m'', ''/m2'']))))
     = [''/m/a.flac'', ''/m2/b.mp3''] \<and>
   map in_master (files (report_json (projr (main world_prefix [''prog'', ''/m'', ''/m2'']))))
     = [True, True]"
  by (simp add: world_prefix_master world_prefix_main write_reports_sel process_files_log
      world_prefix_index_log world_prefix_test_log process_files_detailed entry_for_sel
      complete_index_keys_ex index_keys_def hashable_def world_prefix_hash startswith_def)

text \<open>
  Claim C4. The claim is that every file under the master root that hashes is reported
  with \<open>in_master\<close> true and \<open>EXISTS_IN_MASTER\<close>. In the run \<open>prog ./music\<close> the master
  file is scanned as \<open>music/a.flac\<close>, which does not start with the string \<open>./music\<close>: the
  index loop skips it, and the file, although it hashes, is reported with \<open>in_master\<close>
  false and \<open>NEW_IN_MASTER\<close>.
\<close>

lemma world_dot_scanned: "scanned world_dot [''prog'', ''./music''] = ([''music/a.flac''], [])"
  by (simp add: world_dot_def ev)

lemma world_dot_hash: "hash_file world_dot ''music/a.flac'' = Some ''sha1:XXX''"
  by (simp add: hash_file_eq world_dot_def world_def)

theorem master_file_reported_new:
  "\<not> isl (main world_dot [''prog'', ''./music'']) \<and>
   fst (scan_folder world_dot ''./music'' ([], [])) = [''music/a.flac''] \<and>
   hash_file world_dot ''music/a.flac'' = Some ''sha1:XXX'' \<and>
   map source_path (files (report_json (projr (main world_dot [''prog'', ''./music'']))))
     = [''music/a.flac''] \<and>
   map in_master (files (report_json (projr (main world_dot [''prog'', ''./music'']))))
     = [False] \<and>
   map recommended_action (files (report_json (projr (main world_dot [''prog'', ''./music'']))))
     = [''NEW_IN_MASTER'']"
proof -
  have "fst (scan_folder world_dot ''./music'' ([], [])) = [''music/a.flac'']"
    by (simp add: world_dot_def ev)
  then show ?thesis
    by (simp add: main_eq world_dot_scanned write_reports_sel process_files_detailed
        entry_for_sel complete_index_keys_ex index_keys_def world_dot_hash hashable_def
        startswith_def)
qed

text \<open>
  Claim C3. The claim is that every file of the master root has been hashed and, on
  success, inserted into the index before the first membership test. In the run
  \<open>prog ./music\<close> the scan of the master root finds \<open>music/a.flac\<close>, and the file hashes;
  the index loop does not select it, since its path does not start with the string
  \<open>./music\<close>. The whole log of the run is the membership test of that file, answered
  against an index into which no file of the master root was ever hashed or inserted.
\<close>

theorem master_file_tested_unindexed:
  "fst (scan_folder world_dot ''./music'' ([], [])) = [''music/a.flac''] \<and>
   hash_file world_dot ''music/a.flac'' = Some ''sha1:XXX'' \<and>
   \<not> isl (main world_dot [''prog'', ''./music'']) \<and>
   index_log world_dot ''./music'' [''music/a.flac''] = [] \<and>
   run_events (projr (main world_dot [''prog'', ''./music''])) =
     [MemberTest ''music/a.flac'' ''sha1:XXX'' False]"
proof -
  have scan: "fst (scan_folder world_dot ''./music'' ([], [])) = [''music/a.flac'']"
    by (simp add: world_dot_def ev)
  have log: "index_log world_dot ''./music'' [''music/a.flac''] = []"
    by (simp add: index_log_def startswith_def)
  have tests: "test_log world_dot ''./music'' [''music/a.flac''] =
      [MemberTest ''music/a.flac'' ''sha1:XXX'' False]"
    by (simp add: test_log_def index_keys_def hashable_def world_dot_hash startswith_def)
  have run: "\<not> isl (main world_dot [''prog'', ''./music'']) \<and>
      run_events (projr (main world_dot [''prog'', ''./music''])) =
        [MemberTest ''music/a.flac'' ''sha1:XXX'' False]"
    by (simp add: main_eq world_dot_scanned write_reports_sel process_files_log log tests)
  from scan world_dot_hash log run show ?thesis by (intro conjI) simp_all
qed

section \<open>The duration field\<close>

text \<open>
  Claim C6. The claim is that \<open>duration_sec\<close> is null exactly when no duration was
  extracted. For a file whose tags give a length of zero seconds the extractor returns
  that duration, and the record of the file has \<open>duration_sec\<close> null all the same, while
  its bitrate is reported.
\<close>

lemma world_zero_scanned: "scanned world_zero [''prog'', ''/m''] = ([''/m/a.mp3''], [])"
  by (simp add: world_zero_def ev)

lemma world_zero_hash: "hash_file world_zero ''/m/a.mp3'' = Some ''sha1:XXX''"
  by (simp add: hash_file_eq world_zero_def world_def)

lemma world_zero_tags: "get_bitrate_and_duration world_zero ''/m/a.mp3'' = (Some 128, Some 0)"
proof -
  have "MutagenFile world_zero ''/m/a.mp3'' = MutagenInfo (Some 128000) (Some 0)"
    by (simp add: world_zero_def world_def)
  from get_bitrate_small [OF this] show ?thesis
    by (simp add: py_round_def Let_def)
qed

theorem zero_duration_reported_null:
  "\<not> isl (main world_zero [''prog'', ''/m'']) \<and>
   get_bitrate_and_duration world_zero ''/m/a.mp3'' = (Some 128, Some 0) \<and>
   map source_path (files (report_json (projr (main world_zero [''prog'', ''/m'']))))
     = [''/m/a.mp3''] \<and>
   map bitrate_kbps (files (report_json (projr (main world_zero [''prog'', ''/m'']))))
     = [Some 128] \<and>
   map duration_sec (files (report_json (projr (main world_zero [''prog'', ''/m'']))))
     = [None]"
  by (simp add: main_eq world_zero_scanned write_reports_sel process_files_detailed
      entry_for_sel world_zero_hash world_zero_tags hashable_def)

section \<open>Files that cannot be hashed\<close>

text \<open>
  Claim C5. \<open>hash_file\<close> answers \<open>None\<close> whenever opening or reading the file fails. In
  every run, a scanned file whose hashing fails is listed among the hash errors of the
  error report, has no record in the JSON report and no row in the CSV report, and is
  never the subject of a membership test; the files that do hash all get their record,
  in scan order.
\<close>

theorem hash_failure_recorded_and_skipped:
  assumes "main env argv = Inr r"
    and "f \<in> set (fst (scanned env argv))"
    and "hash_file env f = None"
  shows "(isl (file_bytes env p) \<longrightarrow> hash_file env p = None) \<and>
    report_errors r \<noteq> None \<and>
    f \<in> set (snd (the (report_errors r))) \<and>
    f \<notin> set (map source_path (files (report_json r))) \<and>
    f \<notin> set (map fst (report_detailed_csv r)) \<and>
    (\<forall>h b. MemberTest f h b \<notin> set (run_events r)) \<and>
    map source_path (files (report_json r)) = filter (hashable env) (fst (scanned env argv))"
proof -
  let ?fs = "fst (scanned env argv)"
  let ?s = "process_files env (argv ! 1) ?fs"
  from assms(1) have r: "r = write_reports env (argv ! 1) (datetime_now env 0)
      (snd (scanned env argv)) ?s"
    by (auto dest!: main_Inr)
  from assms(2,3) have bad: "f \<in> set (filter (\<lambda>g. \<not> hashable env g) ?fs)"
    by (simp add: hashable_def)
  from assms(3) have nothash: "f \<notin> set (filter (hashable env) ?fs)"
    by (simp add: hashable_def)
  have 1: "isl (file_bytes env p) \<longrightarrow> hash_file env p = None"
    by (cases "file_bytes env p") (simp_all add: hash_file_eq)
  have herr: "hash_errors ?s = filter (\<lambda>g. \<not> hashable env g) ?fs"
    by (rule process_files_hash_errors)
  have ne: "hash_errors ?s \<noteq> []"
    unfolding herr using bad by (auto simp: filter_empty_conv)
  have 2: "report_errors r \<noteq> None" and 3: "f \<in> set (snd (the (report_errors r)))"
    using ne bad herr by (simp_all add: r write_reports_sel)
  have 4: "map source_path (files (report_json r)) = filter (hashable env) ?fs"
    by (simp add: r write_reports_sel detailed_paths)
  have 5: "map fst (report_detailed_csv r) = filter (hashable env) ?fs"
    by (simp add: r write_reports_sel csv_paths)
  have 6: "\<forall>h b. MemberTest f h b \<notin> set (run_events r)"
  proof (intro allI notI)
    fix h b assume "MemberTest f h b \<in> set (run_events r)"
    then have "MemberTest f h b \<in> set (index_log env (argv ! 1) ?fs) \<or>
        MemberTest f h b \<in> set (test_log env (argv ! 1) ?fs)"
      by (simp add: r write_reports_sel process_files_log)
    then show False
    proof
      assume "MemberTest f h b \<in> set (index_log env (argv ! 1) ?fs)"
      from index_log_no_test [OF this] show False by simp
    next
      assume "MemberTest f h b \<in> set (test_log env (argv ! 1) ?fs)"
      from test_log_hashable [OF this] assms(3) show False by simp
    qed
  qed
  from 1 2 3 4 5 6 nothash show ?thesis by simp
qed

lemma world_unreadable_scanned:
  "scanned world_unreadable [''prog'', ''/m''] = ([''/m/a.flac'', ''/m/b.mp3''], [])"
  by (simp add: world_unreadable_def ev)

lemma world_unreadable_hash:
  "hash_file world_unreadable ''/m/a.flac'' = Some ''sha1:XXX''"
  "hash_file world_unreadable ''/m/b.mp3'' = None"
  by (simp_all add: hash_file_eq world_unreadable_def world_def)

theorem hash_failure_recorded_and_skipped_witness:
  "main world_unreadable [''prog'', ''/m''] = Inr (projr (main world_unreadable [''prog'', ''/m''])) \<and>
   ''/m/b.mp3'' \<in> set (fst (scanned world_unreadable [''prog'', ''/m''])) \<and>
   hash_file world_unreadable ''/m/b.mp3'' = None \<and>
   ''/m/b.mp3'' \<in> set (snd (the (report_errors (projr (main world_unreadable [''prog'', ''/m'']))))) \<and>
   map source_path (files (report_json (projr (main world_unreadable [''prog'', ''/m''])))) =
     [''/m/a.flac'']"
proof -
  have run: "main world_unreadable [''prog'', ''/m''] =
      Inr (projr (main world_unreadable [''prog'', ''/m'']))"
    by (simp add: main_eq)
  have found: "''/m/b.mp3'' \<in> set (fst (scanned world_unreadable [''prog'', ''/m'']))"
    by (simp add: world_unreadable_scanned)
  have fails: "hash_file world_unreadable ''/m/b.mp3'' = None"
    by (rule world_unreadable_hash)
  from hash_failure_recorded_and_skipped [OF run found fails]
  show ?thesis
    using run found fails
    by (simp add: world_unreadable_scanned hashable_def world_unreadable_hash)
qed

section \<open>What the scanner finds\<close>

lemma found_paths_append: "found_paths (xs @ ys) = found_paths xs @ found_paths ys"
  by (simp add: found_paths_def)

lemma found_errors_append: "found_errors (xs @ ys) = found_errors xs @ found_errors ys"
  by (simp add: found_errors_def)

lemma scan_file_found:
  "\<not> list_ex pruned anc \<Longrightarrow>
   scan_file dirpath fname status st =
     (fst st @ found_paths [(anc, path_div (Path dirpath) fname, fname, status)],
      snd st @ found_errors [(anc, path_div (Path dirpath) fname, fname, status)])"
  by (cases status)
    (simp_all add: scan_file_def found_paths_def found_errors_def reachable_def
      passes_filters_def fails_check_def access_message_def Let_def)

lemma scan_files_found:
  "\<not> list_ex pruned anc \<Longrightarrow>
   scan_files dirpath es st =
     (fst st @ found_paths (direct_files dirpath anc es),
      snd st @ found_errors (direct_files dirpath anc es))"
proof (induction dirpath es st rule: scan_files.induct)
  case (1 dirpath st)
  show ?case by (simp add: found_paths_def found_errors_def)
next
  case (2 dirpath fname status es st)
  have dfiles: "direct_files dirpath anc (FileEntry fname status # es) =
      [(anc, path_div (Path dirpath) fname, fname, status)] @ direct_files dirpath anc es"
    by simp
  have rest: "scan_files dirpath es (scan_file dirpath fname status st) =
      (fst (scan_file dirpath fname status st) @ found_paths (direct_files dirpath anc es),
       snd (scan_file dirpath fname status st) @ found_errors (direct_files dirpath anc es))"
    using 2 by simp
  show ?case
    apply (simp only: scan_files.simps rest)
    apply (simp only: dfiles found_paths_append found_errors_append
        scan_file_found [OF "2.prems"])
    apply simp
    done
next
  case (3 dirpath d sub es st)
  then show ?case by simp
qed

lemma ancestors_kept:
  "\<forall>x\<in>set (files_under dirpath anc es). set anc \<subseteq> set (fst x)"
  "\<forall>x\<in>set (files_below dirpath anc es). set anc \<subseteq> set (fst x)"
proof (induction dirpath anc es and dirpath anc es rule: files_under_files_below.induct)
  case (1 dirpath anc entries)
  have "\<forall>x\<in>set (direct_files dirpath anc entries). fst x = anc"
    by (induction dirpath anc entries rule: direct_files.induct) auto
  with 1 show ?case by auto
next
  case (2 dirpath anc)
  show ?case by simp
next
  case (3 dirpath anc fname status es)
  then show ?case by simp
next
  case (4 dirpath anc d sub es)
  then show ?case by auto
qed

lemma pruned_subtree_hidden:
  assumes "pruned d"
  shows "found_paths (files_under dirpath (anc @ [d]) es) = []"
    and "found_errors (files_under dirpath (anc @ [d]) es) = []"
proof -
  have "\<forall>x\<in>set (files_under dirpath (anc @ [d]) es). \<not> reachable x"
  proof
    fix x assume "x \<in> set (files_under dirpath (anc @ [d]) es)"
    with ancestors_kept(1) [of dirpath "anc @ [d]" es] have "d \<in> set (fst x)" by auto
    with assms show "\<not> reachable x" by (auto simp: reachable_def list_ex_iff)
  qed
  then show "found_paths (files_under dirpath (anc @ [d]) es) = []"
    and "found_errors (files_under dirpath (anc @ [d]) es) = []"
    by (simp_all add: found_paths_def found_errors_def filter_empty_conv)
qed

lemma walk_found:
  "\<forall>anc. \<not> list_ex pruned anc \<longrightarrow>
     walk_dir dirpath es st =
       (fst st @ found_paths (files_under dirpath anc es),
        snd st @ found_errors (files_under dirpath anc es))"
  "\<forall>anc. \<not> list_ex pruned anc \<longrightarrow>
     walk_subdirs dirpath es st =
       (fst st @ found_paths (files_below dirpath anc es),
        snd st @ found_errors (files_below dirpath anc es))"
proof (induction dirpath es st and dirpath es st rule: walk_dir_walk_subdirs.induct)
  case (1 dirpath entries st)
  show ?case
  proof (intro allI impI)
    fix anc assume anc: "\<not> list_ex pruned anc"
    with 1 have "walk_subdirs dirpath entries (scan_files dirpath entries st) =
        (fst (scan_files dirpath entries st) @ found_paths (files_below dirpath anc entries),
         snd (scan_files dirpath entries st) @ found_errors (files_below dirpath anc entries))"
      by blast
    then show "walk_dir dirpath entries st =
        (fst st @ found_paths (files_under dirpath anc entries),
         snd st @ found_errors (files_under dirpath anc entries))"
      by (simp add: scan_files_found [OF anc] found_paths_append found_errors_append)
  qed
next
  case (2 dirpath st)
  show ?case by (simp add: found_paths_def found_errors_def)
next
  case (3 dirpath fname status es st)
  then show ?case by simp
next
  case (4 dirpath d sub es st)
  show ?case
  proof (intro allI impI)
    fix anc assume anc: "\<not> list_ex pruned anc"
    show "walk_subdirs dirpath (DirEntry d sub # es) st =
        (fst st @ found_paths (files_below dirpath anc (DirEntry d sub # es)),
         snd st @ found_errors (files_below dirpath anc (DirEntry d sub # es)))"
    proof (cases "pruned d")
      case True
      with "4.IH"(2) anc have "walk_subdirs dirpath es st =
          (fst st @ found_paths (files_below dirpath anc es),
           snd st @ found_errors (files_below dirpath anc es))"
        by (simp del: files_under.simps walk_dir.simps)
      with True show ?thesis
        by (simp add: found_paths_append found_errors_append pruned_subtree_hidden
            del: files_under.simps walk_dir.simps)
    next
      case False
      with anc have anc': "\<not> list_ex pruned (anc @ [d])" by simp
      let ?st = "walk_dir (os_path_join dirpath d) sub st"
      from "4.IH"(1) [OF False] anc' have sub: "?st =
          (fst st @ found_paths (files_under (os_path_join dirpath d) (anc @ [d]) sub),
           snd st @ found_errors (files_under (os_path_join dirpath d) (anc @ [d]) sub))"
        by blast
      from "4.IH"(2) anc False have "walk_subdirs dirpath es ?st =
          (fst ?st @ found_paths (files_below dirpath anc es),
           snd ?st @ found_errors (files_below dirpath anc es))"
        by (simp del: files_under.simps walk_dir.simps)
      with False sub show ?thesis
        by (simp add: found_paths_append found_errors_append
            del: files_under.simps walk_dir.simps)
    qed
  qed
qed

lemma scan_folder_found:
  assumes "fs_root env (path_str (Path root_path)) \<noteq> None"
  shows "scan_folder env root_path (report, errors) =
     (report @ found_paths (root_files env root_path),
      errors @ found_errors (root_files env root_path))"
proof (cases "fs_root env (path_str (Path root_path))")
  case None
  with assms show ?thesis by simp
next
  case (Some e)
  show ?thesis
  proof (cases e)
    case (FileEntry fname status)
    with Some show ?thesis
      by (simp add: scan_folder_def Let_def root_files_def found_paths_def found_errors_def)
  next
    case (DirEntry d entries)
    have "walk_dir (path_str (Path root_path)) entries (report, errors) =
        (report @ found_paths (files_under (path_str (Path root_path)) [] entries),
         errors @ found_errors (files_under (path_str (Path root_path)) [] entries))"
      using walk_found(1) [of "path_str (Path root_path)" entries "(report, errors)"] by simp
    with Some DirEntry show ?thesis
      by (simp add: scan_folder_def Let_def root_files_def)
  qed
qed

lemma scan_folder_missing:
  "fs_root env (path_str (Path r)) = None \<Longrightarrow>
   scan_folder env r (report, errors) = (report, errors @ [''Path not found: '' @ r])"
  by (simp add: scan_folder_def Let_def)

lemma scan_folder_append:
  "scan_folder env r st =
     (fst st @ fst (scan_folder env r ([], [])), snd st @ snd (scan_folder env r ([], [])))"
proof (cases "fs_root env (path_str (Path r))")
  case None
  then show ?thesis by (simp add: scan_folder_def Let_def)
next
  case (Some e)
  then have "fs_root env (path_str (Path r)) \<noteq> None" by simp
  from scan_folder_found [OF this, of "fst st" "snd st"] scan_folder_found [OF this, of "[]" "[]"]
  show ?thesis by simp
qed

section \<open>The rank table\<close>

text \<open>
  Claim C2. \<open>compute_quality_rank\<close> is a total function of the extension and the
  bitrate alone. Whatever the bitrate, \<open>None\<close> included, \<open>.wav\<close>, \<open>.aif\<close> and \<open>.aiff\<close>
  rank 1 and \<open>.flac\<close> ranks 2. For every other extension an unknown bitrate ranks 9999,
  a bitrate of at least 320 ranks 3, of at least 256 ranks 4, of at least 192 ranks 5,
  and any lower bitrate ranks 6.
\<close>

theorem compute_quality_rank_table:
  "(ext \<in> {''.wav'', ''.aif'', ''.aiff''} \<longrightarrow> compute_quality_rank ext bitrate = 1) \<and>
   (ext = ''.flac'' \<longrightarrow> compute_quality_rank ext bitrate = 2) \<and>
   (ext \<notin> {''.wav'', ''.aif'', ''.aiff'', ''.flac''} \<longrightarrow>
      compute_quality_rank ext None = 9999 \<and>
      (320 \<le> b \<longrightarrow> compute_quality_rank ext (Some b) = 3) \<and>
      (256 \<le> b \<and> b < 320 \<longrightarrow> compute_quality_rank ext (Some b) = 4) \<and>
      (192 \<le> b \<and> b < 256 \<longrightarrow> compute_quality_rank ext (Some b) = 5) \<and>
      (b < 192 \<longrightarrow> compute_quality_rank ext (Some b) = 6))"
  by (simp add: compute_quality_rank_def)

theorem compute_quality_rank_table_witness:
  "compute_quality_rank ''.wav'' None = 1 \<and>
   compute_quality_rank ''.aiff'' (Some 128) = 1 \<and>
   compute_quality_rank ''.flac'' None = 2 \<and>
   compute_quality_rank ''.mp3'' None = 9999 \<and>
   compute_quality_rank ''.mp3'' (Some 320) = 3 \<and>
   compute_quality_rank ''.mp3'' (Some 256) = 4 \<and>
   compute_quality_rank ''.mp3'' (Some 192) = 5 \<and>
   compute_quality_rank ''.mp3'' (Some 128) = 6"
  using compute_quality_rank_table [of "''.wav''" None 0]
    compute_quality_rank_table [of "''.aiff''" "Some 128" 0]
    compute_quality_rank_table [of "''.flac''" None 0]
    compute_quality_rank_table [of "''.mp3''" None 320]
    compute_quality_rank_table [of "''.mp3''" None 256]
    compute_quality_rank_table [of "''.mp3''" None 192]
    compute_quality_rank_table [of "''.mp3''" None 128]
  by simp

section \<open>The scanner's output, exactly\<close>






section \<open>Metadata extraction\<close>

text \<open>
  Claim C8, as stated, fails. A bitrate of 17592186044417499 bit/s is 17592186044417.499
  kbit/s, whose nearest integer is 17592186044417. The float division gives
  17592186044417.5, which \<open>round\<close> takes to the even 17592186044418: the result is 501
  bit/s away from the bitrate, not the nearest integer.
\<close>

lemma world_huge_file:
  "MutagenFile world_huge ''huge'' = MutagenInfo (Some 17592186044417499) None"
  by (simp add: world_huge_def world_def)

theorem huge_bitrate_not_nearest:
  "get_bitrate_and_duration world_huge ''huge'' = (Some 17592186044418, None) \<and>
   py_round (of_int 17592186044417499 / 1000) = 17592186044417 \<and>
   \<not> \<bar>1000 * 17592186044418 - 17592186044417499\<bar> \<le> (500 :: int)"
proof -
  have g: "get_bitrate_and_duration world_huge ''huge'' = (Some 17592186044418, None)"
    by (simp add: get_bitrate_and_duration_def world_huge_file huge_quotient huge_rounded)
  have r: "py_round (of_int 17592186044417499 / 1000) = 17592186044417"
    by (rule py_round_unique) simp
  have d: "\<not> \<bar>1000 * 17592186044418 - 17592186044417499\<bar> \<le> (500 :: int)"
    by simp
  from g r d show ?thesis by (intro conjI)
qed

text \<open>
  Claim C8, amended. \<open>get_bitrate_and_duration\<close> returns a pair whatever the tag reader
  does and whatever the bitrate is. When the reader raises or returns \<open>None\<close>, and when
  neither a bitrate nor a length is there, the pair is \<open>(None, None)\<close>; a bitrate that is
  missing alone is \<open>None\<close> beside the length. When a bitrate of \<open>b\<close> bit/s is there and its
  magnitude is below \<open>1000 * 2 ^ 44\<close>, which is 17592186044416000, the first component is
  the integer nearest to \<open>b / 1000\<close> (a tie going to the even one), and the second is the
  length as read.
\<close>

theorem metadata_never_fatal_bounded:
  "(MutagenFile env path = MutagenRaises \<or> MutagenFile env path = MutagenNone \<longrightarrow>
      get_bitrate_and_duration env path = (None, None)) \<and>
   (MutagenFile env path = MutagenInfo None None \<longrightarrow>
      get_bitrate_and_duration env path = (None, None)) \<and>
   (MutagenFile env path = MutagenInfo None d \<longrightarrow>
      get_bitrate_and_duration env path = (None, d)) \<and>
   (MutagenFile env path = MutagenInfo (Some b) d \<longrightarrow>
      get_bitrate_and_duration env path = (None, None) \<or>
      (\<exists>k. get_bitrate_and_duration env path = (Some k, d))) \<and>
   (MutagenFile env path = MutagenInfo (Some b) d \<and> \<bar>b\<bar> < 17592186044416000 \<longrightarrow>
      get_bitrate_and_duration env path = (Some (py_round (of_int b / 1000)), d) \<and>
      \<bar>1000 * py_round (of_int b / 1000) - b\<bar> \<le> 500)"
proof -
  have 1: "MutagenFile env path = MutagenRaises \<or> MutagenFile env path = MutagenNone \<longrightarrow>
      get_bitrate_and_duration env path = (None, None)"
    by (auto simp: get_bitrate_and_duration_def)
  have 2: "MutagenFile env path = MutagenInfo None None \<longrightarrow>
      get_bitrate_and_duration env path = (None, None)"
    by (simp add: get_bitrate_and_duration_def)
  have 3: "MutagenFile env path = MutagenInfo None d \<longrightarrow>
      get_bitrate_and_duration env path = (None, d)"
    by (simp add: get_bitrate_and_duration_def)
  have 4: "MutagenFile env path = MutagenInfo (Some b) d \<longrightarrow>
      get_bitrate_and_duration env path = (None, None) \<or>
      (\<exists>k. get_bitrate_and_duration env path = (Some k, d))"
    by (simp add: get_bitrate_and_duration_def split: sum.splits)
  have 5: "MutagenFile env path = MutagenInfo (Some b) d \<and> \<bar>b\<bar> < 17592186044416000 \<longrightarrow>
      get_bitrate_and_duration env path = (Some (py_round (of_int b / 1000)), d) \<and>
      \<bar>1000 * py_round (of_int b / 1000) - b\<bar> \<le> 500"
    using get_bitrate_small [of env path b d] py_round_kbps [of b] by blast
  from 1 2 3 4 5 show ?thesis by (intro conjI)
qed

lemma world_tags_file:
  "MutagenFile world_tags ''gone'' = MutagenRaises"
  "MutagenFile world_tags ''none'' = MutagenNone"
  "MutagenFile world_tags ''bare'' = MutagenInfo None None"
  "MutagenFile world_tags ''full'' = MutagenInfo (Some 127500) (Some (7 / 2))"
  by (simp_all add: world_tags_def world_def)

theorem metadata_never_fatal_bounded_witness:
  "get_bitrate_and_duration world_tags ''gone'' = (None, None) \<and>
   get_bitrate_and_duration world_tags ''none'' = (None, None) \<and>
   get_bitrate_and_duration world_tags ''bare'' = (None, None) \<and>
   \<bar>127500\<bar> < (17592186044416000 :: int) \<and>
   get_bitrate_and_duration world_tags ''full'' = (Some 128, Some (7 / 2))"
proof -
  have "\<lfloor>255 / 2 :: rat\<rfloor> = 127"
    by (rule floor_unique) simp_all
  then have r: "py_round (255 / 2) = 128"
    by (simp add: py_round_def Let_def)
  from metadata_never_fatal_bounded [where env = world_tags and path = "''gone''" and b = 0 and d = None]
    metadata_never_fatal_bounded [where env = world_tags and path = "''none''" and b = 0 and d = None]
    metadata_never_fatal_bounded [where env = world_tags and path = "''bare''" and b = 0 and d = None]
    metadata_never_fatal_bounded [where env = world_tags and path = "''full''" and b = 127500
      and d = "Some (7 / 2)"]
  show ?thesis
    by (simp add: world_tags_file r)
qed

section \<open>A root that does not exist\<close>



section \<open>Arguments beyond the third\<close>

text \<open>
  Claim C10. Two argument vectors that agree on their first three arguments (the
  elements after the program name) give the same outcome of \<open>main\<close> in the same world:
  the same exit, or the same four reports and the same log.
\<close>

theorem extra_arguments_ignored:
  assumes "take 3 (tl argv) = take 3 (tl argv')"
  shows "main env argv = main env argv'"
  using assms by (rule main_ignores_extra_args_aux)

theorem extra_arguments_ignored_witness:
  "take 3 (tl [''prog'', ''/m'', ''/m2'', ''/x'', ''extra'']) =
     take 3 (tl [''other'', ''/m'', ''/m2'', ''/x'', ''more'', ''and more'']) \<and>
   main world_prefix [''prog'', ''/m'', ''/m2'', ''/x'', ''extra''] =
     main world_prefix [''other'', ''/m'', ''/m2'', ''/x'', ''more'', ''and more'']"
proof -
  have same: "take 3 (tl [''prog'', ''/m'', ''/m2'', ''/x'', ''extra'']) =
      take 3 (tl [''other'', ''/m'', ''/m2'', ''/x'', ''more'', ''and more''])"
    by simp
  from extra_arguments_ignored [OF same, of world_prefix] same
  show ?thesis by blast
qed

end
